theory Spec2Isabelle
  imports Main "HOL-Library.Multiset"
begin

section \<open>The fine-tuning walk-through notebook: data split and configuration merge\<close>

text \<open>
  The notebook \<^verbatim>\<open>task_2_finetune.ipynb\<close> has two cells with logic of their own: cell 5
  splits a line-delimited dataset 80/20 after a seeded shuffle, and cell 7 inserts one named
  entry into a JSON file of configurations. Cell 9 hands a configuration key to the external
  fine-tuning program. The cells are modelled as functions on an explicit world (file system,
  standard output, state of the global random generator); a Python exception is the
  \<open>Some e\<close> in the first component of a cell's result, next to the world it leaves behind.
\<close>

subsection \<open>Exceptions\<close>

datatype error =
    FileNotFoundError
  | IsADirectoryError
  | NotADirectoryError
  | FileExistsError
  | IndexError
  | JSONDecodeError
  | TypeError

subsection \<open>Text: universal newlines, \<^verbatim>\<open>str.splitlines\<close>, \<^verbatim>\<open>str.join\<close>, \<^verbatim>\<open>str(int)\<close>\<close>

text \<open>
  A text is a list of characters, read as code points below 256. The two line boundaries of
  Python beyond that range (U+2028 and U+2029) have no counterpart here.
\<close>

abbreviation LF :: char where "LF \<equiv> CHR 0x0A"
abbreviation CR :: char where "CR \<equiv> CHR 0x0D"

text \<open>Reading in text mode with \<^verbatim>\<open>newline=None\<close>: \<^verbatim>\<open>\r\n\<close> and \<^verbatim>\<open>\r\<close> become \<^verbatim>\<open>\n\<close>.\<close>

fun universal_newlines :: "string \<Rightarrow> string" where
  "universal_newlines [] = []"
| "universal_newlines [c] = (if c = CR then [LF] else [c])"
| "universal_newlines (c # d # cs) =
     (if c = CR \<and> d = LF then LF # universal_newlines cs
      else if c = CR then LF # universal_newlines (d # cs)
      else c # universal_newlines (d # cs))"

definition is_linebreak :: "char \<Rightarrow> bool" where
  "is_linebreak c \<longleftrightarrow>
     c \<in> {CHR 0x0A, CHR 0x0B, CHR 0x0C, CHR 0x0D, CHR 0x1C, CHR 0x1D, CHR 0x1E, CHR 0x85}"

text \<open>
  \<^verbatim>\<open>str.splitlines()\<close>: the text is cut at every line boundary, \<^verbatim>\<open>\r\n\<close> counting as one;
  the boundaries are dropped and a boundary at the very end opens no further line. The first
  argument is the current line, reversed.
\<close>

fun splitlines_from :: "string \<Rightarrow> string \<Rightarrow> string list" where
  "splitlines_from cur [] = (if cur = [] then [] else [rev cur])"
| "splitlines_from cur [c] =
     (if is_linebreak c then [rev cur] else [rev (c # cur)])"
| "splitlines_from cur (c # d # cs) =
     (if c = CR \<and> d = LF then rev cur # splitlines_from [] cs
      else if is_linebreak c then rev cur # splitlines_from [] (d # cs)
      else splitlines_from (c # cur) (d # cs))"

definition splitlines :: "string \<Rightarrow> string list" where
  "splitlines s = splitlines_from [] s"

text \<open>\<^verbatim>\<open>'\n'.join(xs)\<close>\<close>

fun join_nl :: "string list \<Rightarrow> string" where
  "join_nl [] = []"
| "join_nl [x] = x"
| "join_nl (x # y # ys) = x @ LF # join_nl (y # ys)"

text \<open>The decimal numeral of a natural number, as an f-string prints \<^verbatim>\<open>{n}\<close>.\<close>

definition digit_char :: "nat \<Rightarrow> char" where
  "digit_char d = ''0123456789'' ! d"

fun str_nat :: "nat \<Rightarrow> string" where
  "str_nat n = (if n < 10 then [digit_char n] else str_nat (n div 10) @ [digit_char (n mod 10)])"

declare str_nat.simps [simp del]

subsection \<open>Floating point: \<^verbatim>\<open>int(0.8 * n)\<close>\<close>

text \<open>
  Python's \<^verbatim>\<open>float\<close> is IEEE 754 binary64: 53 significant bits, round to nearest, ties to
  even. The values that occur in \<^verbatim>\<open>int(0.8 * n)\<close> are non-negative and finite (a list length
  is below \<open>2 ^ 63\<close>), so a float is modelled exactly, as a pair \<open>(m, e)\<close> that stands for
  the dyadic rational \<open>m / 2 ^ e\<close>.
\<close>

text \<open>\<^verbatim>\<open>int.bit_length()\<close>\<close>

fun bit_length :: "nat \<Rightarrow> nat" where
  "bit_length n = (if n = 0 then 0 else Suc (bit_length (n div 2)))"

declare bit_length.simps [simp del]

text \<open>
  Rounding a natural number to 53 significant bits, ties to even: with \<open>s\<close> surplus bits,
  the number is \<open>q * 2 ^ s + r\<close> and goes to \<open>q * 2 ^ s\<close> or to \<open>(q + 1) * 2 ^ s\<close>.
\<close>

definition round53 :: "nat \<Rightarrow> nat" where
  "round53 p =
     (let s = bit_length p - 53 in
      if s = 0 then p
      else
        let q = p div 2 ^ s; r = p mod 2 ^ s; h = 2 ^ (s - 1) in
        if h < r \<or> (r = h \<and> odd q) then (q + 1) * 2 ^ s else q * 2 ^ s)"

type_synonym float = "nat \<times> nat"

text \<open>The literal \<^verbatim>\<open>0.8\<close> is the double \<^verbatim>\<open>0x1.999999999999ap-1\<close>, that is \<open>7205759403792794 / 2 ^ 53\<close>.\<close>

definition float_0_8 :: float where
  "float_0_8 = (7205759403792794, 53)"

text \<open>The conversion of the \<^verbatim>\<open>int\<close> operand of \<^verbatim>\<open>float * int\<close>.\<close>

definition float_of_nat :: "nat \<Rightarrow> float" where
  "float_of_nat n = (round53 n, 0)"

text \<open>The product of two floats: the exact product of the two fractions, rounded.\<close>

definition float_mul :: "float \<Rightarrow> float \<Rightarrow> float" where
  "float_mul x y = (round53 (fst x * fst y), snd x + snd y)"

text \<open>\<^verbatim>\<open>int(x)\<close> truncates; on a non-negative float that is the floor.\<close>

definition int_of_float :: "float \<Rightarrow> nat" where
  "int_of_float x = fst x div 2 ^ snd x"

subsection \<open>The random generator and \<^verbatim>\<open>random.shuffle\<close>\<close>

text \<open>
  The Mersenne Twister behind the \<^verbatim>\<open>random\<close> module is not part of the notebook. The
  generator is a parameter: a type \<open>'g\<close> of generator states, the function that
  \<^verbatim>\<open>random.seed\<close> computes from its argument, and \<^verbatim>\<open>_randbelow\<close>, which draws an index below
  its argument and advances the state. As a function it always returns: the loop in which
  \<^verbatim>\<open>_randbelow\<close> draws again until the bits fall below its argument is taken to end.
\<close>

type_synonym 'g seeder = "int \<Rightarrow> 'g"
type_synonym 'g randbelow = "nat \<Rightarrow> 'g \<Rightarrow> nat \<times> 'g"

text \<open>The contract of \<^verbatim>\<open>_randbelow(n)\<close>: the index drawn lies in \<^verbatim>\<open>range(n)\<close>.\<close>

definition randbelow_ok :: "'g randbelow \<Rightarrow> bool" where
  "randbelow_ok rb \<longleftrightarrow> (\<forall>n g. 0 < n \<longrightarrow> fst (rb n g) < n)"

text \<open>
  \<^verbatim>\<open>
  for i in reversed(range(1, len(x))):
      j = randbelow(i + 1)
      x[i], x[j] = x[j], x[i]
  \<close>
  \<open>shuffle_loop rb i g xs\<close> runs the iterations \<open>i, i - 1, \<dots>, 1\<close>. An index outside the
  list raises \<^verbatim>\<open>IndexError\<close>.
\<close>

fun shuffle_loop :: "'g randbelow \<Rightarrow> nat \<Rightarrow> 'g \<Rightarrow> 'a list \<Rightarrow> (error \<times> 'g) + ('a list \<times> 'g)" where
  "shuffle_loop rb 0 g xs = Inr (xs, g)"
| "shuffle_loop rb (Suc i) g xs =
     (let (j, g') = rb (Suc i + 1) g in
      if Suc i < length xs \<and> j < length xs
      then shuffle_loop rb i g' (xs[Suc i := xs ! j, j := xs ! Suc i])
      else Inl (IndexError, g'))"

definition shuffle :: "'g randbelow \<Rightarrow> 'g \<Rightarrow> 'a list \<Rightarrow> (error \<times> 'g) + ('a list \<times> 'g)" where
  "shuffle rb g xs = shuffle_loop rb (length xs - 1) g xs"

subsection \<open>The file system\<close>

text \<open>
  Paths are the relative POSIX paths the notebook writes down. The file system maps a path to
  a file with its text or to a directory; it is read as a tree, every entry lying in the
  directory named by its parent path.
\<close>

type_synonym path = string

datatype node = File string | Dir

type_synonym filesystem = "path \<rightharpoonup> node"

text \<open>The parent of a path; \<open>None\<close> for a single name, whose parent is the working directory.\<close>

definition parent_of :: "path \<Rightarrow> path option" where
  "parent_of p =
     (if CHR ''/'' \<in> set p
      then Some (rev (tl (dropWhile (\<lambda>c. c \<noteq> CHR ''/'') (rev p))))
      else None)"

text \<open>Resolving the directory part of a path, as every system call on the path does first.\<close>

definition check_parent :: "filesystem \<Rightarrow> path \<Rightarrow> error option" where
  "check_parent f p =
     (case parent_of p of
        None \<Rightarrow> None
      | Some d \<Rightarrow>
          (case f d of
             None \<Rightarrow> Some FileNotFoundError
           | Some (File _) \<Rightarrow> Some NotADirectoryError
           | Some Dir \<Rightarrow> None))"

text \<open>\<^verbatim>\<open>Path.exists()\<close> and \<^verbatim>\<open>Path.is_dir()\<close>\<close>

definition path_exists :: "filesystem \<Rightarrow> path \<Rightarrow> bool" where
  "path_exists f p \<longleftrightarrow> check_parent f p = None \<and> f p \<noteq> None"

definition is_dir :: "filesystem \<Rightarrow> path \<Rightarrow> bool" where
  "is_dir f p \<longleftrightarrow> check_parent f p = None \<and> f p = Some Dir"

text \<open>\<^verbatim>\<open>open(p, 'r').read()\<close> in text mode\<close>

definition open_read :: "filesystem \<Rightarrow> path \<Rightarrow> error + string" where
  "open_read f p =
     (case check_parent f p of
        Some e \<Rightarrow> Inl e
      | None \<Rightarrow>
          (case f p of
             None \<Rightarrow> Inl FileNotFoundError
           | Some Dir \<Rightarrow> Inl IsADirectoryError
           | Some (File s) \<Rightarrow> Inr (universal_newlines s)))"

text \<open>\<^verbatim>\<open>open(p, 'w').write(s)\<close>: the file is created or replaced.\<close>

definition open_write :: "filesystem \<Rightarrow> path \<Rightarrow> string \<Rightarrow> error + filesystem" where
  "open_write f p s =
     (case check_parent f p of
        Some e \<Rightarrow> Inl e
      | None \<Rightarrow>
          (case f p of
             Some Dir \<Rightarrow> Inl IsADirectoryError
           | _ \<Rightarrow> Inr (f(p \<mapsto> File s))))"

text \<open>\<^verbatim>\<open>os.mkdir(p)\<close>\<close>

definition os_mkdir :: "filesystem \<Rightarrow> path \<Rightarrow> error + filesystem" where
  "os_mkdir f p =
     (case check_parent f p of
        Some e \<Rightarrow> Inl e
      | None \<Rightarrow> if f p \<noteq> None then Inl FileExistsError else Inr (f(p \<mapsto> Dir)))"

text \<open>
  \<^verbatim>\<open>Path(p).mkdir(parents=False, exist_ok=True)\<close>: a failure of \<^verbatim>\<open>os.mkdir\<close> other than
  \<^verbatim>\<open>FileNotFoundError\<close> is dropped when the path is a directory already.
\<close>

definition mkdir_exist_ok :: "filesystem \<Rightarrow> path \<Rightarrow> (error \<times> filesystem) + filesystem" where
  "mkdir_exist_ok f p =
     (case os_mkdir f p of
        Inr f' \<Rightarrow> Inr f'
      | Inl e \<Rightarrow>
          if e = FileNotFoundError then Inl (e, f)
          else if is_dir f p then Inr f
          else Inl (e, f))"

text \<open>
  \<^verbatim>\<open>Path(p).mkdir(parents=True, exist_ok=True)\<close>: when \<^verbatim>\<open>os.mkdir\<close> misses the parent, the
  parent is made first, in the same way, and the directory afterwards.
\<close>

function mkdir_parents :: "filesystem \<Rightarrow> path \<Rightarrow> (error \<times> filesystem) + filesystem" where
  "mkdir_parents f p =
     (case os_mkdir f p of
        Inr f' \<Rightarrow> Inr f'
      | Inl e \<Rightarrow>
          if e = FileNotFoundError then
            (case parent_of p of
               None \<Rightarrow> Inl (e, f)
             | Some d \<Rightarrow>
                 (case mkdir_parents f d of
                    Inl ef \<Rightarrow> Inl ef
                  | Inr f' \<Rightarrow> mkdir_exist_ok f' p))
          else if is_dir f p then Inr f
          else Inl (e, f))"
  by pat_completeness auto
termination
proof (relation "measure (\<lambda>(f, p). length p)")
  show "wf (measure (\<lambda>(f, p). length p))" by simp
next
  fix f :: filesystem and p d :: path and e :: error
  assume "parent_of p = Some d"
  then have d: "d = rev (tl (dropWhile (\<lambda>c. c \<noteq> CHR ''/'') (rev p)))"
    and s: "CHR ''/'' \<in> set p"
    by (auto simp: parent_of_def split: if_splits)
  from s have "dropWhile (\<lambda>c. c \<noteq> CHR ''/'') (rev p) \<noteq> []" by simp
  then have "length (tl (dropWhile (\<lambda>c. c \<noteq> CHR ''/'') (rev p)))
      < length (dropWhile (\<lambda>c. c \<noteq> CHR ''/'') (rev p))"
    by (cases "dropWhile (\<lambda>c. c \<noteq> CHR ''/'') (rev p)") simp_all
  also have "\<dots> \<le> length (rev p)" by (rule length_dropWhile_le)
  finally show "((f, d), (f, p)) \<in> measure (\<lambda>(f, p). length p)" by (simp add: d)
qed

declare mkdir_parents.simps [simp del]

subsection \<open>The world of the notebook\<close>

record 'g world =
  fs :: filesystem
  stdout :: "string list"
  rng :: 'g

subsection \<open>Cell 5: the splitter\<close>

definition raw_file :: path where "raw_file = ''data/finai_raw.jsonl''"
definition train_dir :: path where "train_dir = ''data/train''"
definition test_dir :: path where "test_dir = ''data/test''"
definition train_file :: path where "train_file = ''data/train/finai_train.jsonl''"
definition test_file :: path where "test_file = ''data/test/finai_test.jsonl''"

text \<open>\<^verbatim>\<open>n_train = int(0.8 * n)\<close>\<close>

definition n_train_of :: "nat \<Rightarrow> nat" where
  "n_train_of n = int_of_float (float_mul float_0_8 (float_of_nat n))"

text \<open>
  \<^verbatim>\<open>
  random.shuffle(lines)
  n = len(lines)
  n_train = int(0.8 * n)
  train_lines = lines[:n_train]
  test_lines = lines[n_train:]
  \<close>
  The result holds the locals \<open>n\<close>, \<open>train_lines\<close> and \<open>test_lines\<close>, and the generator
  state after the shuffle.
\<close>

definition split_lines ::
  "'g randbelow \<Rightarrow> 'g \<Rightarrow> string list \<Rightarrow>
     (error \<times> 'g) + (nat \<times> string list \<times> string list \<times> 'g)" where
  "split_lines rb g lines =
     (case shuffle rb g lines of
        Inl eg \<Rightarrow> Inl eg
      | Inr (lines', g') \<Rightarrow>
          (let n = length lines';
               n_train = n_train_of n;
               train_lines = take n_train lines';
               test_lines = drop n_train lines'
           in Inr (n, train_lines, test_lines, g')))"

definition split_message :: "nat \<Rightarrow> nat \<Rightarrow> nat \<Rightarrow> string" where
  "split_message n a b =
     ''Split '' @ str_nat n @ '' examples into '' @ str_nat a
       @ '' examples for fine-tuning and '' @ str_nat b @ '' examples for testing''"

definition missing_message :: string where
  "missing_message = ''Please create '' @ raw_file @ '' with your collected Q&A pairs first''"

text \<open>The second half of the cell: the two directories, the two files, the report.\<close>

definition save_splits ::
  "nat \<Rightarrow> string list \<Rightarrow> string list \<Rightarrow> 'g world \<Rightarrow> error option \<times> 'g world" where
  "save_splits n train_lines test_lines w =
     (case mkdir_parents (fs w) train_dir of
        Inl (e, f) \<Rightarrow> (Some e, w\<lparr>fs := f\<rparr>)
      | Inr f1 \<Rightarrow>
     (case mkdir_parents f1 test_dir of
        Inl (e, f) \<Rightarrow> (Some e, w\<lparr>fs := f\<rparr>)
      | Inr f2 \<Rightarrow>
     (case open_write f2 train_file (join_nl train_lines @ [LF]) of
        Inl e \<Rightarrow> (Some e, w\<lparr>fs := f2\<rparr>)
      | Inr f3 \<Rightarrow>
     (case open_write f3 test_file (join_nl test_lines @ [LF]) of
        Inl e \<Rightarrow> (Some e, w\<lparr>fs := f3\<rparr>)
      | Inr f4 \<Rightarrow>
          (None, w\<lparr>fs := f4,
                    stdout := stdout w @
                      [split_message n (length train_lines) (length test_lines)]\<rparr>)))))"

definition cell5 :: "'g seeder \<Rightarrow> 'g randbelow \<Rightarrow> 'g world \<Rightarrow> error option \<times> 'g world" where
  "cell5 seed rb w =
     (if path_exists (fs w) raw_file then
        (case open_read (fs w) raw_file of
           Inl e \<Rightarrow> (Some e, w)
         | Inr text \<Rightarrow>
             (case split_lines rb (seed 42) (splitlines text) of
                Inl (e, g) \<Rightarrow> (Some e, w\<lparr>rng := g\<rparr>)
              | Inr (n, train_lines, test_lines, g) \<Rightarrow>
                  save_splits n train_lines test_lines (w\<lparr>rng := g\<rparr>)))
      else (None, w\<lparr>stdout := stdout w @ [missing_message]\<rparr>))"

text \<open>
  Nothing stands in the way of the cell's output: neither directory path is taken by a file,
  neither file path by a directory.
\<close>

definition splitter_ready :: "filesystem \<Rightarrow> bool" where
  "splitter_ready f \<longleftrightarrow>
     f train_dir \<in> {None, Some Dir} \<and> f test_dir \<in> {None, Some Dir} \<and>
     f train_file \<noteq> Some Dir \<and> f test_file \<noteq> Some Dir"

text \<open>The file system after a run that wrote the texts \<open>a\<close> and \<open>b\<close>.\<close>

definition with_splits :: "filesystem \<Rightarrow> string \<Rightarrow> string \<Rightarrow> filesystem" where
  "with_splits f a b =
     f(train_dir \<mapsto> Dir, test_dir \<mapsto> Dir, train_file \<mapsto> File a, test_file \<mapsto> File b)"

subsection \<open>Cell 7: the configuration merger\<close>

text \<open>
  The values of the \<^verbatim>\<open>json\<close> module. An object is a Python \<^verbatim>\<open>dict\<close>: a list of entries in
  insertion order. A float is kept as its decimal literal, \<open>JFloat m e\<close> for \<open>m * 10 ^ e\<close>;
  the merger never computes with it.
\<close>

datatype json =
    JNull
  | JBool bool
  | JInt int
  | JFloat int int
  | JStr string
  | JArr "json list"
  | JObj "(string \<times> json) list"

text \<open>\<^verbatim>\<open>d[k] = v\<close> on a \<^verbatim>\<open>dict\<close>: an existing key keeps its place, a new key goes to the end.\<close>

fun dict_setitem :: "'k \<Rightarrow> 'v \<Rightarrow> ('k \<times> 'v) list \<Rightarrow> ('k \<times> 'v) list" where
  "dict_setitem k v [] = [(k, v)]"
| "dict_setitem k v (kv # kvs) =
     (if fst kv = k then (k, v) # kvs else kv # dict_setitem k v kvs)"

text \<open>
  \<^verbatim>\<open>configs[key] = value\<close> with a string key, on whatever \<^verbatim>\<open>json.load\<close> returned: only a
  \<^verbatim>\<open>dict\<close> takes it, a list wants integer indices, and the other values support no item
  assignment.
\<close>

fun py_setitem :: "json \<Rightarrow> string \<Rightarrow> json \<Rightarrow> error + json" where
  "py_setitem (JObj kvs) k v = Inr (JObj (dict_setitem k v kvs))"
| "py_setitem _ k v = Inl TypeError"

definition config_file :: path where "config_file = ''lora/finetune_configs.json''"

definition finai_key :: string where "finai_key = ''finai_llama_3_1_8b_8bits_r8_lora''"

definition finai_entry :: json where
  "finai_entry = JObj
     [(''base_model'', JStr ''meta-llama/Llama-3.1-8B-Instruct''),
      (''dataset_path'', JStr ''../data/train/competition_train.jsonl''),
      (''lora_r'', JInt 8),
      (''quant_bits'', JInt 8),
      (''learning_rate'', JFloat 1 (- 4)),
      (''num_epochs'', JInt 4),
      (''batch_size'', JInt 2),
      (''gradient_accumulation_steps'', JInt 2)]"

definition config_merge :: "(string \<times> json) list \<Rightarrow> (string \<times> json) list" where
  "config_merge kvs = dict_setitem finai_key finai_entry kvs"

text \<open>
  The parser and the printer of the \<^verbatim>\<open>json\<close> module are parameters: \<open>json_loads\<close> gives
  \<open>None\<close> where \<^verbatim>\<open>json.load\<close> raises \<^verbatim>\<open>JSONDecodeError\<close>, and \<open>json_dumps\<close> is the text
  \<^verbatim>\<open>json.dump(configs, f, indent=2)\<close> writes.
\<close>

definition cell7 ::
  "(string \<Rightarrow> json option) \<Rightarrow> (json \<Rightarrow> string) \<Rightarrow> 'g world \<Rightarrow> error option \<times> 'g world" where
  "cell7 json_loads json_dumps w =
     (case open_read (fs w) config_file of
        Inl e \<Rightarrow> (Some e, w)
      | Inr text \<Rightarrow>
     (case json_loads text of
        None \<Rightarrow> (Some JSONDecodeError, w)
      | Some configs \<Rightarrow>
     (case py_setitem configs finai_key finai_entry of
        Inl e \<Rightarrow> (Some e, w)
      | Inr configs' \<Rightarrow>
     (case open_write (fs w) config_file (json_dumps configs') of
        Inl e \<Rightarrow> (Some e, w)
      | Inr f \<Rightarrow> (None, w\<lparr>fs := f\<rparr>)))))"

subsection \<open>Cell 9: the call of the fine-tuning program\<close>

text \<open>\<^verbatim>\<open>!python finetune.py competition_llama_3_1_8b_8bits_r8_lora\<close>, run inside \<^verbatim>\<open>lora\<close>.\<close>

definition finetune_command :: "string list" where
  "finetune_command = [''python'', ''finetune.py'', ''competition_llama_3_1_8b_8bits_r8_lora'']"

definition finetune_key :: string where
  "finetune_key = finetune_command ! 2"

text \<open>The \<^verbatim>\<open>dataset_path\<close> field of a configuration entry.\<close>

definition dataset_path_of :: "json \<Rightarrow> json option" where
  "dataset_path_of j = (case j of JObj kvs \<Rightarrow> map_of kvs ''dataset_path'' | _ \<Rightarrow> None)"

subsection \<open>Concrete data\<close>

text \<open>
  A linear congruential generator with the interface of the generator above; it instantiates
  the parameters where a statement is evaluated on concrete data.
\<close>

definition lcg_seed :: "nat seeder" where
  "lcg_seed a = nat \<bar>a\<bar>"

definition lcg_randbelow :: "nat randbelow" where
  "lcg_randbelow n g =
     (let g' = (1103515245 * g + 12345) mod 2147483648 in (g' mod n, g'))"

text \<open>
  Stand-ins for the parser and the printer of the \<^verbatim>\<open>json\<close> module, as tables over the texts
  and the values of the sample worlds: \<open>m1_text\<close> is \<^verbatim>\<open>{"m1": {"lora_r": 4}}\<close>, which
  \<^verbatim>\<open>json.load\<close> reads as \<open>JObj m1_configs\<close>, and \<open>merged_text\<close> is what
  \<^verbatim>\<open>json.dump(configs, f, indent=2)\<close> writes for that mapping with the entry of cell 7 merged
  in. Outside the tables the stand-ins are not used.
\<close>

abbreviation DQ :: char where "DQ \<equiv> CHR 0x22"

definition quoted :: "string \<Rightarrow> string" where
  "quoted s = DQ # s @ [DQ]"

definition m1_text :: string where
  "m1_text = ''{'' @ quoted ''m1'' @ '': {'' @ quoted ''lora_r'' @ '': 4}}''"

definition m1_configs :: "(string \<times> json) list" where
  "m1_configs = [(''m1'', JObj [(''lora_r'', JInt 4)])]"

definition merged_text :: string where
  "merged_text = join_nl
     [''{'',
      ''  '' @ quoted ''m1'' @ '': {'',
      ''    '' @ quoted ''lora_r'' @ '': 4'',
      ''  },'',
      ''  '' @ quoted ''finai_llama_3_1_8b_8bits_r8_lora'' @ '': {'',
      ''    '' @ quoted ''base_model'' @ '': '' @ quoted ''meta-llama/Llama-3.1-8B-Instruct'' @ '','',
      ''    '' @ quoted ''dataset_path'' @ '': ''
         @ quoted ''../data/train/competition_train.jsonl'' @ '','',
      ''    '' @ quoted ''lora_r'' @ '': 8,'',
      ''    '' @ quoted ''quant_bits'' @ '': 8,'',
      ''    '' @ quoted ''learning_rate'' @ '': 0.0001,'',
      ''    '' @ quoted ''num_epochs'' @ '': 4,'',
      ''    '' @ quoted ''batch_size'' @ '': 2,'',
      ''    '' @ quoted ''gradient_accumulation_steps'' @ '': 2'',
      ''  }'',
      ''}'']"

definition sample_loads :: "string \<Rightarrow> json option" where
  "sample_loads t =
     (if t = m1_text then Some (JObj m1_configs)
      else if t = merged_text then Some (JObj (config_merge m1_configs))
      else if t = ''{}'' then Some (JObj [])
      else if t = ''[]'' then Some (JArr [])
      else None)"

definition sample_dumps :: "json \<Rightarrow> string" where
  "sample_dumps j =
     (if j = JObj (config_merge m1_configs) then merged_text
      else if j = JObj [] then ''{}''
      else if j = JArr [] then ''[]''
      else ''null'')"

text \<open>
  A world with a raw dataset of five lines and a configuration file; then the same world
  with a JSON list in the configuration file.
\<close>

definition sample_world :: "nat world" where
  "sample_world =
     \<lparr>fs = [''data'' \<mapsto> Dir,
            raw_file \<mapsto> File (join_nl [''r1'', ''r2'', ''r3'', ''r4'', ''r5''] @ [LF]),
            ''lora'' \<mapsto> Dir,
            config_file \<mapsto> File m1_text],
      stdout = [],
      rng = 7\<rparr>"

definition list_world :: "nat world" where
  "list_world = sample_world\<lparr>fs := (fs sample_world)(config_file \<mapsto> File ''[]'')\<rparr>"

text \<open>The same world with an empty raw dataset, and with a raw dataset of one line.\<close>

definition empty_input_world :: "nat world" where
  "empty_input_world = sample_world\<lparr>fs := (fs sample_world)(raw_file \<mapsto> File [])\<rparr>"

definition one_line_world :: "nat world" where
  "one_line_world =
     sample_world\<lparr>fs := (fs sample_world)(raw_file \<mapsto> File (''r1'' @ [LF]))\<rparr>"

section \<open>Properties\<close>

subsection \<open>Rounding to 53 bits\<close>

lemma bit_length_0 [simp]: "bit_length 0 = 0"
  by (subst bit_length.simps) simp

lemma bit_length_pos: "0 < n \<Longrightarrow> bit_length n = Suc (bit_length (n div 2))"
  by (subst bit_length.simps) simp

lemma bit_length_le: "n < 2 ^ b \<Longrightarrow> bit_length n \<le> b"
proof (induction b arbitrary: n)
  case 0
  then show ?case by simp
next
  case (Suc b)
  show ?case
  proof (cases "n = 0")
    case True
    then show ?thesis by simp
  next
    case False
    from Suc.prems have "n div 2 < 2 ^ b" by simp
    then have "bit_length (n div 2) \<le> b" by (rule Suc.IH)
    with False show ?thesis by (simp add: bit_length_pos)
  qed
qed

lemma bit_length_1 [simp]: "bit_length 1 = 1" "bit_length (Suc 0) = 1"
  by (simp_all add: bit_length_pos)

lemma bit_length_Bit0 [simp]: "bit_length (numeral (Num.Bit0 k)) = Suc (bit_length (numeral k))"
proof -
  have "(numeral (Num.Bit0 k) :: nat) div 2 = numeral k" by simp
  then show ?thesis by (simp add: bit_length_pos del: numeral_div_numeral)
qed

lemma bit_length_Bit1 [simp]: "bit_length (numeral (Num.Bit1 k)) = Suc (bit_length (numeral k))"
proof -
  have "(numeral (Num.Bit1 k) :: nat) div 2 = numeral k" by simp
  then show ?thesis by (simp add: bit_length_pos del: numeral_div_numeral)
qed

lemmas n_train_defs =
  n_train_of_def int_of_float_def float_mul_def float_of_nat_def float_0_8_def round53_def

text \<open>The double \<open>7205759403792794 / 2 ^ 53\<close> is the one nearest to \<open>4 / 5\<close>.\<close>

lemma float_0_8_nearest:
  "fst float_0_8 * 5 - 4 * 2 ^ snd float_0_8 = 2"
  "4 * 2 ^ snd float_0_8 - (fst float_0_8 - 1) * 5 = 3"
  by (simp_all add: float_0_8_def)

lemma round53_lower: "(p div 2 ^ (bit_length p - 53)) * 2 ^ (bit_length p - 53) \<le> round53 p"
  by (auto simp: round53_def Let_def)

lemma round53_upper: "round53 p * 2 \<le> p * 2 + 2 ^ (bit_length p - 53)"
proof -
  define s where "s = bit_length p - 53"
  define q where "q = p div 2 ^ s"
  define r where "r = p mod 2 ^ s"
  have p: "p = q * 2 ^ s + r" unfolding q_def r_def by (rule div_mult_mod_eq [symmetric])
  show ?thesis
  proof (cases "s = 0")
    case True
    then show ?thesis by (simp add: round53_def s_def [symmetric])
  next
    case False
    then have pow: "(2::nat) ^ s = 2 * 2 ^ (s - 1)" by (cases s) simp_all
    show ?thesis
    proof (cases "2 ^ (s - 1) < r \<or> (r = 2 ^ (s - 1) \<and> odd q)")
      case True
      then have "2 ^ (s - 1) \<le> r" by auto
      with pow have "2 ^ s \<le> 2 * r" by simp
      moreover from True False have "round53 p = (q + 1) * 2 ^ s"
        by (simp add: round53_def Let_def s_def [symmetric] q_def [symmetric] r_def [symmetric])
      ultimately show ?thesis unfolding s_def [symmetric] by (subst (2) p) (simp add: algebra_simps)
    next
      case nup: False
      with False have "round53 p = q * 2 ^ s"
        by (simp add: round53_def Let_def s_def [symmetric] q_def [symmetric] r_def [symmetric])
      then show ?thesis unfolding s_def [symmetric] by (subst (2) p) (simp add: algebra_simps)
    qed
  qed
qed

lemma round53_exact: "p < 2 ^ 53 \<Longrightarrow> round53 p = p"
  using bit_length_le [of p 53] by (simp add: round53_def)

text \<open>
  Below \<open>3 * 2 ^ 49\<close> the rounding of the product never reaches the next integer, and the
  float computation agrees with the exact \<open>\<lfloor>4 n / 5\<rfloor>\<close>.
\<close>

lemma n_train_of_floor:
  assumes n: "n < 3 * 2 ^ 49"
  shows "n_train_of n = 4 * n div 5"
proof -
  define C :: nat where "C = 7205759403792794"
  define B :: nat where "B = 2 ^ 53"
  define H :: nat where "H = 2 ^ 50"
  define P where "P = C * n"
  define k where "k = 4 * n div 5"
  define s where "s = bit_length P - 53"
  have BH: "B = 8 * H" by (simp add: B_def H_def)
  have nH: "2 * n < 3 * H" using n by (simp add: H_def)
  have C5: "5 * C = 4 * B + 2" by (simp add: C_def B_def)
  have "5 * P = (5 * C) * n" by (simp add: P_def)
  also have "\<dots> = (4 * B + 2) * n" by (simp only: C5)
  also have "\<dots> = 4 * (n * B) + 2 * n" by (simp add: algebra_simps)
  finally have P5: "5 * P = 4 * (n * B) + 2 * n" .
  have k1: "5 * k \<le> 4 * n" and k2: "4 * n < 5 * k + 5" by (simp_all add: k_def)
  have "n < 2 ^ 53" using n by simp
  then have rn: "round53 n = n" by (rule round53_exact)
  have "C < 2 ^ 53" by (simp add: C_def)
  moreover have "n < 2 ^ 51" using n by simp
  ultimately have "C * n < 2 ^ 53 * 2 ^ 51" by (rule mult_strict_mono) simp_all
  then have "P < 2 ^ 104" by (simp add: P_def)
  then have "bit_length P \<le> 104" by (rule bit_length_le)
  then have s51: "s \<le> 51" by (simp add: s_def)
  have lowP: "k * B \<le> P"
  proof -
    from mult_le_mono1 [OF k1, of B] have "5 * (k * B) \<le> 4 * (n * B)"
      by (simp only: mult.assoc)
    with P5 show ?thesis by linarith
  qed
  have low: "k * B \<le> round53 P"
  proof -
    from s51 have Bs: "B = 2 ^ (53 - s) * 2 ^ s" by (simp add: B_def flip: power_add)
    then have kB: "k * B = (k * 2 ^ (53 - s)) * 2 ^ s" by (simp only: mult.assoc)
    with lowP have "(k * 2 ^ (53 - s)) * 2 ^ s \<le> P" by (simp only:)
    then have "k * 2 ^ (53 - s) \<le> P div 2 ^ s" by (simp add: less_eq_div_iff_mult_less_eq)
    then have "(k * 2 ^ (53 - s)) * 2 ^ s \<le> (P div 2 ^ s) * 2 ^ s" by (rule mult_le_mono1)
    also have "\<dots> \<le> round53 P" unfolding s_def by (rule round53_lower)
    finally show ?thesis by (simp only: kB)
  qed
  have up: "round53 P < (k + 1) * B"
  proof -
    have "(2::nat) ^ s \<le> 2 ^ 51" using s51 by (rule power_increasing) simp
    also have "(2::nat) ^ 51 = 2 * H" by (simp add: H_def)
    finally have "(2::nat) ^ s \<le> 2 * H" .
    with round53_upper [of P] have r: "round53 P * 2 \<le> P * 2 + 2 * H" by (simp add: s_def)
    from k2 have "4 * n \<le> 5 * k + 4" by simp
    from mult_le_mono1 [OF this, of B] have "4 * (n * B) \<le> 5 * (k * B) + 4 * B"
      by (simp only: mult.assoc distrib_right)
    moreover have "(k + 1) * B = k * B + B" by (simp only: distrib_right mult_1)
    ultimately show ?thesis using P5 r nH BH by linarith
  qed
  from low up have "round53 P div B = k"
    by (intro div_nat_eqI) (simp_all add: mult.commute)
  then show ?thesis
    by (simp add: n_train_of_def int_of_float_def float_mul_def float_of_nat_def float_0_8_def rn
        P_def C_def k_def B_def)
qed

lemma n_train_of_small: "n < 2 \<Longrightarrow> n_train_of n = 0"
proof -
  assume "n < 2"
  then have "n = 0 \<or> n = 1" by arith
  then show ?thesis by (auto simp: n_train_defs)
qed

text \<open>
  The bound of \<open>n_train_of_floor\<close> is sharp: at \<open>3 * 2 ^ 49\<close> the exact product lies
  half-way between two doubles and the tie goes up to the next integer. A list of that many
  lines is beyond any memory.
\<close>

lemma n_train_of_at_bound:
  "n_train_of 1688849860263936 = 1351079888211149 \<and>
   4 * 1688849860263936 div 5 = (1351079888211148 :: nat) \<and>
   length (take (n_train_of 1688849860263936) (replicate 1688849860263936 ''x''))
     = 1351079888211149"
  by (simp add: n_train_defs)

lemma bit_length_lower: "0 < n \<Longrightarrow> 2 ^ (bit_length n - 1) \<le> n"
proof (induction n rule: less_induct)
  case (less n)
  show ?case
  proof (cases "n div 2 = 0")
    case True
    with less.prems have "n = 1" by (cases n) auto
    then show ?thesis by simp
  next
    case False
    then have p: "0 < n div 2" by simp
    with less.prems have "n div 2 < n" by simp
    from less.IH [OF this p] have "2 ^ (bit_length (n div 2) - 1) \<le> n div 2" .
    moreover from p have "0 < bit_length (n div 2)" by (simp add: bit_length_pos)
    then have "bit_length n - 1 = Suc (bit_length (n div 2) - 1)"
      using less.prems by (simp add: bit_length_pos [of n])
    ultimately show ?thesis by simp
  qed
qed

lemma surplus_bits_small:
  assumes "0 < bit_length p - 53"
  shows "2 ^ (bit_length p - 53) * 2 ^ 52 \<le> p"
proof -
  from assms have p: "0 < p" by (cases "p = 0") simp_all
  from assms have "bit_length p - 53 + 52 = bit_length p - 1" by simp
  then have "(2::nat) ^ (bit_length p - 53) * 2 ^ 52 = 2 ^ (bit_length p - 1)"
    by (simp only: power_add [symmetric])
  with bit_length_lower [OF p] show ?thesis by (simp only:)
qed

lemma round53_surplus:
  assumes "0 < bit_length p - 53"
  shows "2 ^ 52 * 2 ^ (bit_length p - 53) \<le> round53 p"
proof -
  define s where "s = bit_length p - 53"
  define E :: nat where "E = 2 ^ 52"
  from assms have "2 ^ s * E \<le> p" unfolding s_def E_def by (rule surplus_bits_small)
  then have "E * 2 ^ s \<le> p" by (simp only: mult.commute)
  then have "E \<le> p div 2 ^ s" by (simp add: less_eq_div_iff_mult_less_eq)
  then have "E * 2 ^ s \<le> (p div 2 ^ s) * 2 ^ s" by (rule mult_le_mono1)
  also have "\<dots> \<le> round53 p" unfolding s_def by (rule round53_lower)
  finally show ?thesis unfolding s_def E_def .
qed

lemma round53_ge_pow53:
  assumes "2 ^ 53 \<le> p"
  shows "2 ^ 53 \<le> round53 p"
proof (cases "bit_length p - 53 = 0")
  case True
  with assms show ?thesis by (simp add: round53_def)
next
  case False
  define s where "s = bit_length p - 53"
  define E :: nat where "E = 2 ^ 52"
  from False have "E * 2 ^ s \<le> round53 p" unfolding s_def E_def by (intro round53_surplus) simp
  moreover from False have "(2::nat) ^ 1 \<le> 2 ^ s" unfolding s_def by (intro power_increasing) simp_all
  then have "E * 2 \<le> E * 2 ^ s" by (intro mult_le_mono2) simp
  moreover have "E * 2 = 2 ^ 53" by (simp add: E_def)
  ultimately show ?thesis by linarith
qed

lemma round53_ge_2:
  assumes "2 \<le> p"
  shows "2 \<le> round53 p"
proof (cases "bit_length p - 53 = 0")
  case True
  with assms show ?thesis by (simp add: round53_def)
next
  case False
  then have "2 ^ 52 * 2 ^ (bit_length p - 53) \<le> round53 p" by (intro round53_surplus) simp
  moreover have "(2::nat) ^ 52 * 1 \<le> 2 ^ 52 * 2 ^ (bit_length p - 53)"
    by (intro mult_le_mono2) simp
  moreover have "(2::nat) \<le> 2 ^ 52 * 1" by simp
  ultimately show ?thesis by linarith
qed

lemma round53_relative: "round53 p * 2 ^ 53 \<le> p * 2 ^ 53 + p"
proof (cases "bit_length p - 53 = 0")
  case True
  then show ?thesis by (simp add: round53_def)
next
  case False
  define s where "s = bit_length p - 53"
  define E :: nat where "E = 2 ^ 52"
  from False have a: "2 ^ s * E \<le> p" unfolding s_def E_def by (intro surplus_bits_small) simp
  from round53_upper [of p] have "round53 p * 2 \<le> p * 2 + 2 ^ s" by (simp add: s_def)
  then have "(round53 p * 2) * E \<le> (p * 2 + 2 ^ s) * E" by (rule mult_le_mono1)
  then have "round53 p * (2 * E) \<le> p * (2 * E) + 2 ^ s * E"
    by (simp only: mult.assoc distrib_right)
  with a have "round53 p * (2 * E) \<le> p * (2 * E) + p" by linarith
  moreover have "2 * E = 2 ^ 53" by (simp add: E_def)
  ultimately show ?thesis by simp
qed

text \<open>From two lines on the training partition gets a line, and the test partition always does.\<close>

lemma n_train_of_pos:
  assumes "2 \<le> n"
  shows "1 \<le> n_train_of n"
proof -
  define C :: nat where "C = 7205759403792794"
  define B :: nat where "B = 2 ^ 53"
  from assms have r: "2 \<le> round53 n" by (rule round53_ge_2)
  have "2 ^ 52 \<le> C" by (simp add: C_def)
  from mult_le_mono [OF this r] have "2 ^ 52 * 2 \<le> C * round53 n" .
  then have "2 ^ 53 \<le> C * round53 n" by simp
  then have "2 ^ 53 \<le> round53 (C * round53 n)" by (rule round53_ge_pow53)
  then have "B \<le> round53 (C * round53 n)" by (simp only: B_def)
  then have "1 \<le> round53 (C * round53 n) div B"
    by (simp add: less_eq_div_iff_mult_less_eq B_def)
  then show ?thesis
    by (simp add: n_train_of_def int_of_float_def float_mul_def float_of_nat_def float_0_8_def
        C_def B_def)
qed

lemma n_train_of_less:
  assumes "1 \<le> n"
  shows "n_train_of n < n"
proof -
  define C :: nat where "C = 7205759403792794"
  define B :: nat where "B = 2 ^ 53"
  define R1 where "R1 = round53 n"
  define R2 where "R2 = round53 (C * R1)"
  have K: "C * (B + 1) * (B + 1) < B * B * B" by (simp add: C_def B_def)
  have a: "R1 * B \<le> n * (B + 1)"
    using round53_relative [of n] by (simp add: R1_def B_def)
  have b: "R2 * B \<le> (C * R1) * (B + 1)"
    using round53_relative [of "C * R1"] by (simp add: R2_def B_def)
  from mult_le_mono1 [OF b, of B] have "R2 * B * B \<le> (C * R1) * (B + 1) * B" .
  also have "\<dots> = (C * (B + 1)) * (R1 * B)" by (simp only: mult_ac)
  also from a have "\<dots> \<le> (C * (B + 1)) * (n * (B + 1))" by (rule mult_le_mono2)
  also have "\<dots> = (C * (B + 1) * (B + 1)) * n" by (simp only: mult_ac)
  also from K assms have "\<dots> < (B * B * B) * n" by (intro mult_strict_right_mono) simp_all
  also have "\<dots> = (n * B) * B * B" by (simp only: mult_ac)
  finally have "R2 * B * B < (n * B) * B * B" .
  then have "R2 < n * B" by simp
  then have "R2 div B < n" by (simp add: div_less_iff_less_mult B_def)
  then show ?thesis
    by (simp add: n_train_of_def int_of_float_def float_mul_def float_of_nat_def float_0_8_def
        R2_def R1_def C_def B_def)
qed

subsection \<open>The shuffle\<close>

lemma shuffle_loop_total:
  assumes "randbelow_ok rb" and "i < length xs \<or> i = 0"
  shows "\<exists>ys g'. shuffle_loop rb i g xs = Inr (ys, g') \<and> mset ys = mset xs"
  using assms(2)
proof (induction i arbitrary: g xs)
  case 0
  then show ?case by simp
next
  case (Suc i)
  obtain j g1 where r: "rb (Suc i + 1) g = (j, g1)" by (cases "rb (Suc i + 1) g")
  from Suc.prems have i: "Suc i < length xs" by simp
  from assms(1) have "fst (rb (Suc i + 1) g) < Suc i + 1" by (simp add: randbelow_ok_def)
  with r i have j: "j < length xs" by simp
  let ?xs = "xs[Suc i := xs ! j, j := xs ! Suc i]"
  have m: "mset ?xs = mset xs" using i j by (simp add: mset_swap)
  have "i < length ?xs \<or> i = 0" using i by simp
  from Suc.IH [OF this, of g1] obtain ys g' where
    "shuffle_loop rb i g1 ?xs = Inr (ys, g')" "mset ys = mset ?xs" by blast
  with r i j m show ?case by simp
qed

lemma shuffle_total:
  assumes "randbelow_ok rb"
  shows "\<exists>ys g'. shuffle rb g xs = Inr (ys, g') \<and> mset ys = mset xs"
proof -
  have "length xs - 1 < length xs \<or> length xs - 1 = 0" by (cases xs) simp_all
  from shuffle_loop_total [OF assms this] show ?thesis by (simp add: shuffle_def)
qed

lemma shuffle_loop_mset:
  "shuffle_loop rb i g xs = Inr (ys, g') \<Longrightarrow> mset ys = mset xs"
proof (induction i arbitrary: g xs)
  case 0
  then show ?case by simp
next
  case (Suc i)
  obtain j g1 where r: "rb (Suc i + 1) g = (j, g1)" by (cases "rb (Suc i + 1) g")
  with Suc.prems have b: "Suc i < length xs \<and> j < length xs"
    and s: "shuffle_loop rb i g1 (xs[Suc i := xs ! j, j := xs ! Suc i]) = Inr (ys, g')"
    by (auto split: if_splits)
  from Suc.IH [OF s] b show ?case by (simp add: mset_swap)
qed

lemma split_lines_shuffle:
  "shuffle rb g lines = Inr (ys, g') \<Longrightarrow>
   split_lines rb g lines =
     Inr (length ys, take (n_train_of (length ys)) ys, drop (n_train_of (length ys)) ys, g')"
  by (simp add: split_lines_def Let_def)

lemma split_lines_total:
  assumes "randbelow_ok rb"
  shows "\<exists>ys g'. shuffle rb g lines = Inr (ys, g') \<and> mset ys = mset lines \<and>
     split_lines rb g lines =
       Inr (length lines, take (n_train_of (length lines)) ys, drop (n_train_of (length lines)) ys, g')"
proof -
  from shuffle_total [OF assms] obtain ys g' where
    s: "shuffle rb g lines = Inr (ys, g')" and m: "mset ys = mset lines" by blast
  from m have "length ys = length lines" by (rule mset_eq_length)
  with split_lines_shuffle [OF s] s m show ?thesis by simp
qed

lemma randbelow_ok_lcg: "randbelow_ok lcg_randbelow"
  by (simp add: randbelow_ok_def lcg_randbelow_def Let_def)

subsection \<open>Evaluation on concrete data\<close>

lemma shuffle_loop_numeral:
  "shuffle_loop rb (numeral k) g xs =
     (let (j, g') = rb (numeral k + 1) g in
      if numeral k < length xs \<and> j < length xs
      then shuffle_loop rb (pred_numeral k) g' (xs[numeral k := xs ! j, j := xs ! numeral k])
      else Inl (IndexError, g'))"
proof -
  have "shuffle_loop rb (Suc (pred_numeral k)) g xs =
     (let (j, g') = rb (Suc (pred_numeral k) + 1) g in
      if Suc (pred_numeral k) < length xs \<and> j < length xs
      then shuffle_loop rb (pred_numeral k) g'
        (xs[Suc (pred_numeral k) := xs ! j, j := xs ! Suc (pred_numeral k)])
      else Inl (IndexError, g'))"
    by (rule shuffle_loop.simps)
  then show ?thesis by (simp only: numeral_eq_Suc [symmetric])
qed

lemma list_update_numeral:
  "(x # xs)[numeral k := y] = x # xs[pred_numeral k := y]"
  by (simp add: numeral_eq_Suc)

lemmas shuffle_eval = shuffle_def shuffle_loop_numeral numeral_2_eq_2 [symmetric] list_update_numeral
  lcg_randbelow_def lcg_seed_def Let_def

lemma shuffle_sample:
  "shuffle lcg_randbelow (lcg_seed 42) [''r1'', ''r2'', ''r3'', ''r4'', ''r5'']
   = Inr ([''r2'', ''r4'', ''r5'', ''r1'', ''r3''], 1668674806)"
  by (simp add: shuffle_eval)

lemma split_lines_sample:
  "split_lines lcg_randbelow (lcg_seed 42) [''r1'', ''r2'', ''r3'', ''r4'', ''r5'']
   = Inr (5, [''r2'', ''r4'', ''r5'', ''r1''], [''r3''], 1668674806)"
proof -
  have l: "length [''r2'', ''r4'', ''r5'', ''r1'', ''r3''] = 5" by simp
  have n: "n_train_of 5 = 4" by (simp add: n_train_defs)
  from split_lines_shuffle [OF shuffle_sample] show ?thesis unfolding l n by simp
qed

subsection \<open>The file system under cell 5\<close>

lemma parent_of_paths [simp]:
  "parent_of raw_file = Some ''data''"
  "parent_of train_dir = Some ''data''"
  "parent_of test_dir = Some ''data''"
  "parent_of train_file = Some train_dir"
  "parent_of test_file = Some test_dir"
  "parent_of config_file = Some ''lora''"
  by (simp_all add: parent_of_def raw_file_def train_dir_def test_dir_def train_file_def
      test_file_def config_file_def)

lemma paths_distinct [simp]:
  "train_dir \<noteq> test_dir" "train_dir \<noteq> train_file" "train_dir \<noteq> test_file"
  "test_dir \<noteq> train_file" "test_dir \<noteq> test_file" "train_file \<noteq> test_file"
  "raw_file \<noteq> train_dir" "raw_file \<noteq> test_dir" "raw_file \<noteq> train_file"
  "raw_file \<noteq> test_file"
  "''data'' \<noteq> train_dir" "''data'' \<noteq> test_dir" "''data'' \<noteq> train_file"
  "''data'' \<noteq> test_file"
  by (simp_all add: raw_file_def train_dir_def test_dir_def train_file_def test_file_def)

lemmas paths_distinct_sym [simp] = paths_distinct [THEN not_sym]

lemma mkdir_parents_child:
  assumes "parent_of p = Some d" and "f d = Some Dir" and "f p = None \<or> f p = Some Dir"
  shows "mkdir_parents f p = Inr (f(p \<mapsto> Dir))"
proof (cases "f p")
  case None
  with assms(1,2) show ?thesis
    by (subst mkdir_parents.simps) (simp add: os_mkdir_def check_parent_def)
next
  case (Some a)
  with assms(3) have a: "f p = Some Dir" by simp
  then have "f(p \<mapsto> Dir) = f" by (rule fun_upd_idem)
  with a assms(1,2) show ?thesis
    by (subst mkdir_parents.simps) (simp add: os_mkdir_def check_parent_def is_dir_def)
qed

lemma open_write_child:
  assumes "parent_of p = Some d" and "f d = Some Dir" and "f p \<noteq> Some Dir"
  shows "open_write f p s = Inr (f(p \<mapsto> File s))"
  using assms by (auto simp: open_write_def check_parent_def split: option.splits node.splits)

lemma path_exists_raw: "path_exists f raw_file \<Longrightarrow> f ''data'' = Some Dir"
  by (auto simp: path_exists_def check_parent_def split: option.splits node.splits)

lemma save_splits_runs:
  assumes d: "fs w ''data'' = Some Dir" and r: "splitter_ready (fs w)"
  shows "save_splits n a b w =
     (None, w\<lparr>fs := with_splits (fs w) (join_nl a @ [LF]) (join_nl b @ [LF]),
              stdout := stdout w @ [split_message n (length a) (length b)]\<rparr>)"
proof -
  let ?f1 = "(fs w)(train_dir \<mapsto> Dir)"
  let ?f2 = "?f1(test_dir \<mapsto> Dir)"
  let ?f3 = "?f2(train_file \<mapsto> File (join_nl a @ [LF]))"
  from r have r1: "fs w train_dir = None \<or> fs w train_dir = Some Dir"
    and r2: "fs w test_dir = None \<or> fs w test_dir = Some Dir"
    and r3: "fs w train_file \<noteq> Some Dir" and r4: "fs w test_file \<noteq> Some Dir"
    by (auto simp: splitter_ready_def)
  have m1: "mkdir_parents (fs w) train_dir = Inr ?f1"
    using d r1 by (intro mkdir_parents_child [OF parent_of_paths(2)])
  have m2: "mkdir_parents ?f1 test_dir = Inr ?f2"
  proof (rule mkdir_parents_child [OF parent_of_paths(3)])
    show "?f1 ''data'' = Some Dir" using d by simp
    show "?f1 test_dir = None \<or> ?f1 test_dir = Some Dir" using r2 by simp
  qed
  have w1: "open_write ?f2 train_file (join_nl a @ [LF]) = Inr ?f3"
    using r3 by (intro open_write_child [OF parent_of_paths(4)]) simp_all
  have w2: "open_write ?f3 test_file (join_nl b @ [LF])
      = Inr (?f3(test_file \<mapsto> File (join_nl b @ [LF])))"
    using r4 by (intro open_write_child [OF parent_of_paths(5)]) simp_all
  show ?thesis by (simp add: save_splits_def m1 m2 w1 w2 with_splits_def)
qed

lemma cell5_runs:
  assumes ex: "path_exists (fs w) raw_file" and raw: "fs w raw_file = Some (File s)"
    and r: "splitter_ready (fs w)"
    and sh: "shuffle rb (seed 42) (splitlines (universal_newlines s)) = Inr (ys, g')"
  shows "cell5 seed rb w =
     (None, w\<lparr>fs := with_splits (fs w)
                 (join_nl (take (n_train_of (length ys)) ys) @ [LF])
                 (join_nl (drop (n_train_of (length ys)) ys) @ [LF]),
              stdout := stdout w @
                 [split_message (length ys) (length (take (n_train_of (length ys)) ys))
                    (length (drop (n_train_of (length ys)) ys))],
              rng := g'\<rparr>)"
proof -
  from ex have d: "fs w ''data'' = Some Dir" by (rule path_exists_raw)
  from ex raw have rd: "open_read (fs w) raw_file = Inr (universal_newlines s)"
    by (simp add: open_read_def path_exists_def)
  have sp: "split_lines rb (seed 42) (splitlines (universal_newlines s)) =
     Inr (length ys, take (n_train_of (length ys)) ys, drop (n_train_of (length ys)) ys, g')"
    using sh by (rule split_lines_shuffle)
  have "save_splits (length ys) (take (n_train_of (length ys)) ys)
      (drop (n_train_of (length ys)) ys) (w\<lparr>rng := g'\<rparr>) =
     (None, w\<lparr>rng := g'\<rparr>\<lparr>fs := with_splits (fs (w\<lparr>rng := g'\<rparr>))
                 (join_nl (take (n_train_of (length ys)) ys) @ [LF])
                 (join_nl (drop (n_train_of (length ys)) ys) @ [LF]),
              stdout := stdout (w\<lparr>rng := g'\<rparr>) @
                 [split_message (length ys) (length (take (n_train_of (length ys)) ys))
                    (length (drop (n_train_of (length ys)) ys))]\<rparr>)"
    using d r by (intro save_splits_runs) simp_all
  with ex rd sp show ?thesis by (simp add: cell5_def)
qed

subsection \<open>The sample worlds\<close>

lemma splitlines_sample:
  "splitlines (universal_newlines (join_nl [''r1'', ''r2'', ''r3'', ''r4'', ''r5''] @ [LF]))
     = [''r1'', ''r2'', ''r3'', ''r4'', ''r5'']"
  by (simp add: splitlines_def is_linebreak_def)

lemma sample_world_ready:
  "path_exists (fs sample_world) raw_file"
  "fs sample_world raw_file = Some (File (join_nl [''r1'', ''r2'', ''r3'', ''r4'', ''r5''] @ [LF]))"
  "splitter_ready (fs sample_world)"
  by (simp_all add: sample_world_def path_exists_def check_parent_def splitter_ready_def
      raw_file_def train_dir_def test_dir_def train_file_def test_file_def config_file_def
      parent_of_def)

lemma cell5_sample:
  "cell5 lcg_seed lcg_randbelow sample_world =
     (None, sample_world
        \<lparr>fs := with_splits (fs sample_world)
                 (join_nl [''r2'', ''r4'', ''r5'', ''r1''] @ [LF]) (join_nl [''r3''] @ [LF]),
         stdout := [''Split 5 examples into 4 examples for fine-tuning and 1 examples for testing''],
         rng := 1668674806\<rparr>)"
proof -
  have sh: "shuffle lcg_randbelow (lcg_seed 42)
      (splitlines (universal_newlines (join_nl [''r1'', ''r2'', ''r3'', ''r4'', ''r5''] @ [LF])))
      = Inr ([''r2'', ''r4'', ''r5'', ''r1'', ''r3''], 1668674806)"
    unfolding splitlines_sample by (rule shuffle_sample)
  have l: "length [''r2'', ''r4'', ''r5'', ''r1'', ''r3''] = 5" by simp
  have n: "n_train_of 5 = 4" by (simp add: n_train_defs)
  have m: "split_message 5 (Suc (Suc (Suc (Suc 0)))) (Suc 0) =
     ''Split 5 examples into 4 examples for fine-tuning and 1 examples for testing''"
    by (simp add: split_message_def str_nat.simps digit_char_def)
  have o: "stdout sample_world = []" by (simp add: sample_world_def)
  from cell5_runs [where seed = lcg_seed, OF sample_world_ready sh] show ?thesis
    unfolding l n by (simp add: m o)
qed

lemma sample_world_again:
  "path_exists (fs (snd (cell5 lcg_seed lcg_randbelow sample_world))) raw_file"
  "fs (snd (cell5 lcg_seed lcg_randbelow sample_world)) raw_file
     = Some (File (join_nl [''r1'', ''r2'', ''r3'', ''r4'', ''r5''] @ [LF]))"
  "splitter_ready (fs (snd (cell5 lcg_seed lcg_randbelow sample_world)))"
  unfolding cell5_sample
  by (simp_all add: with_splits_def sample_world_def path_exists_def
      check_parent_def splitter_ready_def raw_file_def train_dir_def test_dir_def
      train_file_def test_file_def config_file_def parent_of_def)

lemma empty_input_world_ready:
  "path_exists (fs empty_input_world) raw_file"
  "fs empty_input_world raw_file = Some (File [])"
  "splitter_ready (fs empty_input_world)"
  by (simp_all add: empty_input_world_def sample_world_def path_exists_def check_parent_def
      splitter_ready_def raw_file_def train_dir_def test_dir_def train_file_def test_file_def
      config_file_def parent_of_def)

subsection \<open>Lines written and read back\<close>

lemma not_break_CR: "\<not> is_linebreak c \<Longrightarrow> c \<noteq> CR"
  by (auto simp: is_linebreak_def)

lemma is_linebreak_LF [simp]: "is_linebreak LF"
  by (simp add: is_linebreak_def)

lemma splitlines_from_line:
  assumes "\<forall>c\<in>set x. \<not> is_linebreak c"
  shows "splitlines_from cur (x @ LF # rest) = (rev cur @ x) # splitlines_from [] rest"
  using assms
proof (induction x arbitrary: cur)
  case Nil
  then show ?case by (cases rest) simp_all
next
  case (Cons a x)
  then have a: "\<not> is_linebreak a" "a \<noteq> CR" by (auto dest: not_break_CR)
  obtain d ds where d: "x @ LF # rest = d # ds" by (cases "x @ LF # rest") simp_all
  from Cons.prems have "\<forall>c\<in>set x. \<not> is_linebreak c" by simp
  from Cons.IH [OF this, of "a # cur"] have
    "splitlines_from (a # cur) (x @ LF # rest) = (rev (a # cur) @ x) # splitlines_from [] rest" .
  moreover have "splitlines_from cur (a # d # ds) = splitlines_from (a # cur) (d # ds)"
    using a by simp
  ultimately show ?case by (simp add: d)
qed

lemma splitlines_join:
  assumes "xs \<noteq> []" and "\<forall>x\<in>set xs. \<forall>c\<in>set x. \<not> is_linebreak c"
  shows "splitlines (join_nl xs @ [LF]) = xs"
  using assms
proof (induction xs rule: join_nl.induct)
  case 1
  then show ?case by simp
next
  case (2 x)
  then have "\<forall>c\<in>set x. \<not> is_linebreak c" by simp
  from splitlines_from_line [OF this, of "[]" "[]"] show ?case by (simp add: splitlines_def)
next
  case (3 x y ys)
  then have x: "\<forall>c\<in>set x. \<not> is_linebreak c"
    and r: "\<forall>z\<in>set (y # ys). \<forall>c\<in>set z. \<not> is_linebreak c" by simp_all
  from "3.IH" r have "splitlines (join_nl (y # ys) @ [LF]) = y # ys" by simp
  with splitlines_from_line [OF x, of "[]" "join_nl (y # ys) @ [LF]"] show ?case
    by (simp add: splitlines_def)
qed

lemma splitlines_from_clean:
  assumes "\<forall>c\<in>set cur. \<not> is_linebreak c"
  shows "\<forall>x\<in>set (splitlines_from cur s). \<forall>c\<in>set x. \<not> is_linebreak c"
  using assms
proof (induction cur s rule: splitlines_from.induct)
  case (1 cur)
  then show ?case by simp
next
  case (2 cur c)
  then show ?case by simp
next
  case (3 cur c d cs)
  show ?case
  proof (cases "c = CR \<and> d = LF")
    case True
    with "3.IH"(1) have "\<forall>x\<in>set (splitlines_from [] cs). \<forall>c\<in>set x. \<not> is_linebreak c"
      by simp
    with True "3.prems" show ?thesis by simp
  next
    case nc: False
    show ?thesis
    proof (cases "is_linebreak c")
      case True
      with nc "3.IH"(2) have
        "\<forall>x\<in>set (splitlines_from [] (d # cs)). \<forall>c\<in>set x. \<not> is_linebreak c"
        by simp
      moreover from nc True have
        "splitlines_from cur (c # d # cs) = rev cur # splitlines_from [] (d # cs)" by auto
      ultimately show ?thesis using "3.prems" by (simp del: splitlines_from.simps)
    next
      case False
      with nc "3.IH"(3) "3.prems" have
        "\<forall>x\<in>set (splitlines_from (c # cur) (d # cs)). \<forall>c\<in>set x. \<not> is_linebreak c"
        by simp
      moreover from nc False have
        "splitlines_from cur (c # d # cs) = splitlines_from (c # cur) (d # cs)" by auto
      ultimately show ?thesis by (simp del: splitlines_from.simps)
    qed
  qed
qed

lemma splitlines_clean: "\<forall>x\<in>set (splitlines s). \<forall>c\<in>set x. \<not> is_linebreak c"
  unfolding splitlines_def by (rule splitlines_from_clean) simp

lemma universal_newlines_id: "\<forall>c\<in>set s. c \<noteq> CR \<Longrightarrow> universal_newlines s = s"
  by (induction s rule: universal_newlines.induct) simp_all

lemma join_nl_no_CR:
  assumes "\<forall>x\<in>set xs. \<forall>c\<in>set x. \<not> is_linebreak c"
  shows "\<forall>c\<in>set (join_nl xs). c \<noteq> CR"
  using assms by (induction xs rule: join_nl.induct) (auto dest: not_break_CR)

lemma join_nl_lines:
  "xs \<noteq> [] \<Longrightarrow> join_nl xs @ [LF] = concat (map (\<lambda>x. x @ [LF]) xs)"
  by (induction xs rule: join_nl.induct) simp_all

text \<open>Reading a written partition back, as cell 5 reads its input.\<close>

lemma read_back:
  assumes "f p = Some (File (join_nl xs @ [LF]))" and "check_parent f p = None"
    and "xs \<noteq> []" and "\<forall>x\<in>set xs. \<forall>c\<in>set x. \<not> is_linebreak c"
  shows "open_read f p = Inr (join_nl xs @ [LF])" and "splitlines (join_nl xs @ [LF]) = xs"
proof -
  from join_nl_no_CR [OF assms(4)] have "\<forall>c\<in>set (join_nl xs @ [LF]). c \<noteq> CR" by simp
  then have "universal_newlines (join_nl xs @ [LF]) = join_nl xs @ [LF]"
    by (rule universal_newlines_id)
  with assms(1,2) show "open_read f p = Inr (join_nl xs @ [LF])" by (simp add: open_read_def)
  from assms(3,4) show "splitlines (join_nl xs @ [LF]) = xs" by (rule splitlines_join)
qed

lemma with_splits_parents:
  "check_parent (with_splits f a b) train_file = None"
  "check_parent (with_splits f a b) test_file = None"
  by (simp_all add: check_parent_def with_splits_def)

lemma mset_short:
  assumes "mset ys = mset xs" and "length xs < 2"
  shows "ys = xs"
proof (cases xs)
  case Nil
  with assms(1) show ?thesis by simp
next
  case (Cons x xs')
  with assms(2) have xs: "xs = [x]" by simp
  from assms(1) have "length ys = length xs" by (rule mset_eq_length)
  with xs obtain y where ys: "ys = [y]" by (cases ys) simp_all
  with assms(1) xs show ?thesis by simp
qed

lemma cell5_files:
  assumes "path_exists (fs w) raw_file" and "fs w raw_file = Some (File s)"
    and "splitter_ready (fs w)"
    and "shuffle rb (seed 42) (splitlines (universal_newlines s)) = Inr (ys, g')"
  shows "fst (cell5 seed rb w) = None"
    and "fs (snd (cell5 seed rb w)) =
      with_splits (fs w) (join_nl (take (n_train_of (length ys)) ys) @ [LF])
        (join_nl (drop (n_train_of (length ys)) ys) @ [LF])"
  using cell5_runs [where seed = seed, OF assms] by simp_all

lemma with_splits_files:
  "with_splits f a b train_file = Some (File a)"
  "with_splits f a b test_file = Some (File b)"
  by (simp_all add: with_splits_def)

lemma one_line_world_ready:
  "path_exists (fs one_line_world) raw_file"
  "fs one_line_world raw_file = Some (File (''r1'' @ [LF]))"
  "splitter_ready (fs one_line_world)"
  by (simp_all add: one_line_world_def sample_world_def path_exists_def check_parent_def
      splitter_ready_def raw_file_def train_dir_def test_dir_def train_file_def test_file_def
      config_file_def parent_of_def)

lemma splitlines_one_line: "splitlines (universal_newlines (''r1'' @ [LF])) = [''r1'']"
  by (simp add: splitlines_def is_linebreak_def)

lemma shuffle_one_line:
  "shuffle lcg_randbelow (lcg_seed 42) (splitlines (universal_newlines (''r1'' @ [LF])))
     = Inr ([''r1''], 42)"
  unfolding splitlines_one_line by (simp add: shuffle_def lcg_seed_def)

lemma cell5_one_line:
  "fst (cell5 lcg_seed lcg_randbelow one_line_world) = None"
  "fs (snd (cell5 lcg_seed lcg_randbelow one_line_world))
     = with_splits (fs one_line_world) [LF] (''r1'' @ [LF])"
  using cell5_files [where seed = lcg_seed, OF one_line_world_ready shuffle_one_line]
  by (simp_all add: n_train_of_small)

subsection \<open>The dictionary and the configuration file\<close>

lemma map_of_dict_setitem: "map_of (dict_setitem k v kvs) = (map_of kvs)(k \<mapsto> v)"
  by (induction kvs) auto

lemma others_dict_setitem:
  "filter (\<lambda>kv. fst kv \<noteq> k) (dict_setitem k v kvs) = filter (\<lambda>kv. fst kv \<noteq> k) kvs"
  by (induction kvs) auto

lemma keys_dict_setitem:
  "set (map fst (dict_setitem k v kvs)) = insert k (set (map fst kvs))"
  by (induction kvs) auto

lemma distinct_dict_setitem:
  "distinct (map fst kvs) \<Longrightarrow> distinct (map fst (dict_setitem k v kvs))"
proof (induction kvs)
  case Nil
  then show ?case by simp
next
  case (Cons kv kvs)
  then show ?case using keys_dict_setitem [of k v kvs] by auto
qed

lemma dict_setitem_idem: "dict_setitem k v (dict_setitem k v kvs) = dict_setitem k v kvs"
  by (induction kvs) auto

lemma open_write_after_read:
  "open_read f p = Inr t \<Longrightarrow> open_write f p s = Inr (f(p \<mapsto> File s))"
  by (auto simp: open_read_def open_write_def split: option.splits node.splits)

lemma sample_config_read:
  "open_read (fs sample_world) config_file = Inr m1_text"
  "sample_loads m1_text = Some (JObj m1_configs)"
  by (simp_all add: sample_world_def open_read_def check_parent_def parent_of_def
      raw_file_def config_file_def sample_loads_def m1_text_def quoted_def)

lemma list_config_read:
  "open_read (fs list_world) config_file = Inr ''[]''"
  by (simp add: list_world_def sample_world_def open_read_def check_parent_def parent_of_def
      raw_file_def config_file_def)

lemma cell7_runs:
  assumes "open_read (fs w) config_file = Inr t" and "json_loads t = Some (JObj kvs)"
  shows "cell7 json_loads json_dumps w =
     (None, w\<lparr>fs := (fs w)(config_file \<mapsto> File (json_dumps (JObj (config_merge kvs))))\<rparr>)"
  using assms open_write_after_read [OF assms(1)]
  by (simp add: cell7_def config_merge_def)

lemma open_read_after_write:
  assumes "open_read f p = Inr t" and "parent_of p \<noteq> Some p"
  shows "open_read (f(p \<mapsto> File s)) p = Inr (universal_newlines s)"
  using assms by (auto simp: open_read_def check_parent_def split: option.splits node.splits)

text \<open>
  Run twice, cell 7 leaves the world of the first run, provided the parser reads back what
  the printer wrote.
\<close>

lemma cell7_twice:
  assumes r: "open_read (fs w) config_file = Inr t" and l: "json_loads t = Some (JObj kvs)"
    and rt: "json_loads (universal_newlines (json_dumps (JObj (config_merge kvs))))
      = Some (JObj (config_merge kvs))"
  shows "cell7 json_loads json_dumps (snd (cell7 json_loads json_dumps w))
     = cell7 json_loads json_dumps w"
proof -
  let ?w' = "w\<lparr>fs := (fs w)(config_file \<mapsto> File (json_dumps (JObj (config_merge kvs))))\<rparr>"
  have one: "cell7 json_loads json_dumps w = (None, ?w')" using r l by (rule cell7_runs)
  have "parent_of config_file \<noteq> Some config_file"
    unfolding parent_of_paths by (simp add: config_file_def)
  with r have r': "open_read (fs ?w') config_file
      = Inr (universal_newlines (json_dumps (JObj (config_merge kvs))))"
    by (simp add: open_read_after_write)
  have two: "cell7 json_loads json_dumps ?w' =
     (None, ?w'\<lparr>fs := (fs ?w')
        (config_file \<mapsto> File (json_dumps (JObj (config_merge (config_merge kvs)))))\<rparr>)"
    using r' rt by (rule cell7_runs)
  have idem: "config_merge (config_merge kvs) = config_merge kvs"
    by (simp add: config_merge_def dict_setitem_idem)
  have "cell7 json_loads json_dumps ?w' = (None, ?w')"
    unfolding two idem by simp
  then show ?thesis by (simp add: one)
qed

section \<open>The claims\<close>

text \<open>
  Claim C1. For an input of \<open>n\<close> lines the splitter produces \<open>train_lines\<close> and
  \<open>test_lines\<close> with \<open>len(train_lines) + len(test_lines) = n\<close>, and the multiset union of the
  two is the multiset of the input lines: no record is duplicated or dropped.
\<close>

theorem split_is_partition:
  assumes "randbelow_ok rb"
  shows "\<exists>train_lines test_lines g'.
     split_lines rb g lines = Inr (length lines, train_lines, test_lines, g') \<and>
     length train_lines + length test_lines = length lines \<and>
     mset train_lines + mset test_lines = mset lines"
proof -
  from split_lines_total [OF assms] obtain ys g' where
    m: "mset ys = mset lines" and
    s: "split_lines rb g lines =
       Inr (length lines, take (n_train_of (length lines)) ys, drop (n_train_of (length lines)) ys, g')"
    by blast
  let ?k = "n_train_of (length lines)"
  have "mset (take ?k ys) + mset (drop ?k ys) = mset (take ?k ys @ drop ?k ys)"
    by (simp only: mset_append)
  then have u: "mset (take ?k ys) + mset (drop ?k ys) = mset lines" using m by simp
  then have "size (mset (take ?k ys) + mset (drop ?k ys)) = size (mset lines)" by simp
  then have "length (take ?k ys) + length (drop ?k ys) = length lines" by simp
  with s u show ?thesis by blast
qed

theorem split_is_partition_witness:
  "randbelow_ok lcg_randbelow \<and>
   split_lines lcg_randbelow (lcg_seed 42) [''r1'', ''r2'', ''r3'', ''r4'', ''r5'']
     = Inr (5, [''r2'', ''r4'', ''r5'', ''r1''], [''r3''], 1668674806) \<and>
   length [''r2'', ''r4'', ''r5'', ''r1''] + length [''r3'']
     = length [''r1'', ''r2'', ''r3'', ''r4'', ''r5''] \<and>
   mset [''r2'', ''r4'', ''r5'', ''r1''] + mset [''r3'']
     = mset [''r1'', ''r2'', ''r3'', ''r4'', ''r5'']"
  using split_is_partition [OF randbelow_ok_lcg, of "lcg_seed 42"
      "[''r1'', ''r2'', ''r3'', ''r4'', ''r5'']"]
    randbelow_ok_lcg split_lines_sample
  by auto

text \<open>
  Claim C2. The claim reads: the key handed to the fine-tuning program is the key the merger
  inserted, and the \<^verbatim>\<open>dataset_path\<close> of the inserted entry is the train file the splitter
  wrote. The notebook does otherwise: cell 9 passes \<^verbatim>\<open>competition_llama_3_1_8b_8bits_r8_lora\<close>,
  cell 7 inserts \<^verbatim>\<open>finai_llama_3_1_8b_8bits_r8_lora\<close> (merged into an empty mapping, the key
  of cell 9 is still missing), and the entry names \<^verbatim>\<open>competition_train.jsonl\<close> where the
  splitter wrote \<^verbatim>\<open>finai_train.jsonl\<close>, with or without the \<^verbatim>\<open>../\<close> that leads out of
  \<^verbatim>\<open>lora\<close>.
\<close>

theorem finetune_key_is_not_the_inserted_key:
  "finetune_key = ''competition_llama_3_1_8b_8bits_r8_lora'' \<and>
   finai_key = ''finai_llama_3_1_8b_8bits_r8_lora'' \<and>
   finetune_key \<noteq> finai_key \<and>
   map_of (config_merge []) finetune_key = None \<and>
   dataset_path_of finai_entry = Some (JStr ''../data/train/competition_train.jsonl'') \<and>
   train_file = ''data/train/finai_train.jsonl'' \<and>
   dataset_path_of finai_entry \<noteq> Some (JStr train_file) \<and>
   dataset_path_of finai_entry \<noteq> Some (JStr (''../'' @ train_file))"
  by (simp add: finetune_key_def finetune_command_def finai_key_def config_merge_def
      dataset_path_of_def finai_entry_def train_file_def)

text \<open>
  Claim C3. The number of training lines the splitter returns is \<open>\<lfloor>0.8 n\<rfloor> = 4 n div 5\<close>,
  computed as \<open>int(0.8 * n)\<close> in floating point, and the test lines are the remaining
  \<open>n - \<lfloor>0.8 n\<rfloor>\<close>, the training lines being the first ones of the shuffled list. The
  float computation is exact for every list of fewer than \<open>3 * 2 ^ 49\<close> lines, and that
  bound is more lines than any memory holds.
\<close>

theorem train_size_is_floor:
  assumes "randbelow_ok rb" and "length lines < 3 * 2 ^ 49"
  shows "\<exists>ys g'.
     shuffle rb g lines = Inr (ys, g') \<and>
     split_lines rb g lines =
       Inr (length lines, take (4 * length lines div 5) ys, drop (4 * length lines div 5) ys, g') \<and>
     length (take (4 * length lines div 5) ys) = 4 * length lines div 5 \<and>
     length (drop (4 * length lines div 5) ys) = length lines - 4 * length lines div 5"
proof -
  from split_lines_total [OF assms(1)] obtain ys g' where
    sh: "shuffle rb g lines = Inr (ys, g')" and m: "mset ys = mset lines" and
    sp: "split_lines rb g lines =
       Inr (length lines, take (n_train_of (length lines)) ys,
            drop (n_train_of (length lines)) ys, g')"
    by blast
  from m have l: "length ys = length lines" by (rule mset_eq_length)
  from assms(2) have k: "n_train_of (length lines) = 4 * length lines div 5"
    by (rule n_train_of_floor)
  have "4 * length lines div 5 \<le> length lines" by simp
  with sh sp l k show ?thesis by (auto simp: min_def)
qed

theorem train_size_is_floor_witness:
  "randbelow_ok lcg_randbelow \<and> length [''r1'', ''r2'', ''r3'', ''r4'', ''r5''] < (3 * 2 ^ 49 :: nat) \<and>
   split_lines lcg_randbelow (lcg_seed 42) [''r1'', ''r2'', ''r3'', ''r4'', ''r5'']
     = Inr (5, [''r2'', ''r4'', ''r5'', ''r1''], [''r3''], 1668674806) \<and>
   length [''r2'', ''r4'', ''r5'', ''r1''] = 4 * 5 div 5 \<and>
   length [''r3''] = 5 - 4 * 5 div 5"
proof -
  have h: "length [''r1'', ''r2'', ''r3'', ''r4'', ''r5''] < (3 * 2 ^ 49 :: nat)" by simp
  from train_size_is_floor [OF randbelow_ok_lcg h, of "lcg_seed 42"]
    randbelow_ok_lcg split_lines_sample h
  show ?thesis by auto
qed

text \<open>
  Claim C4. If the raw input file does not exist, the split step prints a message instead of
  splitting, writes no file and creates no directory, and raises nothing: the world is the
  old one with one more line on standard output.
\<close>

theorem missing_input_is_soft:
  assumes "\<not> path_exists (fs w) raw_file"
  shows "cell5 seed rb w = (None, w\<lparr>stdout := stdout w @ [missing_message]\<rparr>)"
  using assms by (simp add: cell5_def)

theorem missing_input_is_soft_witness:
  "\<not> path_exists (fs \<lparr>fs = Map.empty, stdout = [], rng = 0\<rparr>) raw_file \<and>
   cell5 lcg_seed lcg_randbelow \<lparr>fs = Map.empty, stdout = [], rng = 0\<rparr>
     = (None, \<lparr>fs = Map.empty,
               stdout = [''Please create data/finai_raw.jsonl with your collected Q&A pairs first''],
               rng = 0\<rparr>)"
proof -
  have h: "\<not> path_exists (fs \<lparr>fs = Map.empty, stdout = [], rng = 0::nat\<rparr>) raw_file"
    by (simp add: path_exists_def)
  from missing_input_is_soft [OF h, of lcg_seed lcg_randbelow] h show ?thesis
    by (simp add: missing_message_def raw_file_def)
qed

text \<open>
  Claim C5. Merging the named entry inserts or overwrites that one key only: the cell
  rewrites the configuration file, and nothing else, with a mapping in which the key holds
  the new entry and every other entry is the old one, in the old order.
\<close>

theorem merge_touches_one_key:
  assumes "open_read (fs w) config_file = Inr text"
    and "json_loads text = Some (JObj kvs)"
  shows "cell7 json_loads json_dumps w =
       (None, w\<lparr>fs := (fs w)(config_file \<mapsto> File (json_dumps (JObj (config_merge kvs))))\<rparr>) \<and>
     map_of (config_merge kvs) = (map_of kvs)(finai_key \<mapsto> finai_entry) \<and>
     filter (\<lambda>kv. fst kv \<noteq> finai_key) (config_merge kvs)
       = filter (\<lambda>kv. fst kv \<noteq> finai_key) kvs"
  using assms open_write_after_read [OF assms(1)]
  by (simp add: cell7_def config_merge_def map_of_dict_setitem others_dict_setitem)

theorem merge_touches_one_key_witness:
  "open_read (fs sample_world) config_file = Inr m1_text \<and>
   sample_loads m1_text = Some (JObj m1_configs) \<and>
   cell7 sample_loads sample_dumps sample_world =
     (None, sample_world\<lparr>fs := (fs sample_world)(config_file \<mapsto> File merged_text)\<rparr>) \<and>
   config_merge m1_configs
     = [(''m1'', JObj [(''lora_r'', JInt 4)]), (finai_key, finai_entry)] \<and>
   map_of (config_merge m1_configs) ''m1'' = map_of m1_configs ''m1''"
proof -
  have m: "config_merge m1_configs
     = [(''m1'', JObj [(''lora_r'', JInt 4)]), (finai_key, finai_entry)]"
    by (simp add: config_merge_def m1_configs_def finai_key_def)
  have d: "sample_dumps (JObj (config_merge m1_configs)) = merged_text"
    by (simp add: sample_dumps_def)
  have k: "''m1'' \<noteq> finai_key" by (simp add: finai_key_def)
  from merge_touches_one_key [where json_loads = sample_loads and json_dumps = sample_dumps,
      OF sample_config_read] sample_config_read m k
  show ?thesis unfolding d by simp
qed

text \<open>
  Claim C6. Two runs of the splitter over the same input text write the same train file
  and the same test file and leave the generator in the same state, whatever the state of
  the generator and the rest of the world before each run: the cell seeds the generator
  with 42 itself.
\<close>

theorem split_is_deterministic:
  assumes "randbelow_ok rb"
    and "path_exists (fs w1) raw_file" and "fs w1 raw_file = Some (File s)"
    and "splitter_ready (fs w1)"
    and "path_exists (fs w2) raw_file" and "fs w2 raw_file = Some (File s)"
    and "splitter_ready (fs w2)"
  shows "fst (cell5 seed rb w1) = None \<and> fst (cell5 seed rb w2) = None \<and>
     fs (snd (cell5 seed rb w1)) train_file = fs (snd (cell5 seed rb w2)) train_file \<and>
     fs (snd (cell5 seed rb w1)) test_file = fs (snd (cell5 seed rb w2)) test_file \<and>
     rng (snd (cell5 seed rb w1)) = rng (snd (cell5 seed rb w2))"
proof -
  from shuffle_total [OF assms(1)] obtain ys g' where
    sh: "shuffle rb (seed 42) (splitlines (universal_newlines s)) = Inr (ys, g')" by blast
  from cell5_runs [where seed = seed, OF assms(2-4) sh]
    cell5_runs [where seed = seed, OF assms(5-7) sh]
  show ?thesis by (simp add: with_splits_def)
qed

theorem split_is_deterministic_witness:
  "randbelow_ok lcg_randbelow \<and>
   path_exists (fs sample_world) raw_file \<and>
   fs sample_world raw_file
     = Some (File (join_nl [''r1'', ''r2'', ''r3'', ''r4'', ''r5''] @ [LF])) \<and>
   splitter_ready (fs sample_world) \<and>
   path_exists (fs (snd (cell5 lcg_seed lcg_randbelow sample_world))) raw_file \<and>
   fs (snd (cell5 lcg_seed lcg_randbelow sample_world)) raw_file
     = Some (File (join_nl [''r1'', ''r2'', ''r3'', ''r4'', ''r5''] @ [LF])) \<and>
   splitter_ready (fs (snd (cell5 lcg_seed lcg_randbelow sample_world))) \<and>
   rng sample_world \<noteq> rng (snd (cell5 lcg_seed lcg_randbelow sample_world)) \<and>
   fst (cell5 lcg_seed lcg_randbelow (snd (cell5 lcg_seed lcg_randbelow sample_world))) = None \<and>
   fs (snd (cell5 lcg_seed lcg_randbelow (snd (cell5 lcg_seed lcg_randbelow sample_world))))
      train_file
     = Some (File (join_nl [''r2'', ''r4'', ''r5'', ''r1''] @ [LF])) \<and>
   fs (snd (cell5 lcg_seed lcg_randbelow (snd (cell5 lcg_seed lcg_randbelow sample_world))))
      test_file
     = Some (File (join_nl [''r3''] @ [LF]))"
proof -
  have a: "fs (snd (cell5 lcg_seed lcg_randbelow sample_world)) train_file
     = Some (File (join_nl [''r2'', ''r4'', ''r5'', ''r1''] @ [LF]))"
    and b: "fs (snd (cell5 lcg_seed lcg_randbelow sample_world)) test_file
     = Some (File (join_nl [''r3''] @ [LF]))"
    and c: "rng sample_world \<noteq> rng (snd (cell5 lcg_seed lcg_randbelow sample_world))"
    unfolding cell5_sample by (simp_all add: with_splits_def sample_world_def)
  from split_is_deterministic [where seed = lcg_seed, OF randbelow_ok_lcg sample_world_ready
      sample_world_again] a b c randbelow_ok_lcg sample_world_ready sample_world_again
  show ?thesis by simp
qed

text \<open>
  Claim C7, as stated, has "for \<open>n < 2\<close> the test partition is empty". With one line,
  \<open>int(0.8 * 1) = 0\<close>: the train partition is empty and the line goes to the test
  partition.
\<close>

theorem one_line_goes_to_test:
  "length [''r1''] < 2 \<and>
   split_lines lcg_randbelow (lcg_seed 42) [''r1''] = Inr (1, [], [''r1''], 42) \<and>
   [''r1''] \<noteq> []"
  by (simp add: split_lines_def shuffle_def lcg_seed_def n_train_defs)

text \<open>
  Claim C7, amended. Each output file holds its partition's lines, every line followed by a
  newline (for an empty partition the file is a single newline); an empty input file gives
  two empty partitions; and for \<open>n < 2\<close> the train partition is empty, the test partition
  being the input lines: with one line, that line.
\<close>

theorem small_inputs:
  assumes "randbelow_ok rb" and "path_exists (fs w) raw_file"
    and "fs w raw_file = Some (File s)" and "splitter_ready (fs w)"
  shows "\<exists>n train_lines test_lines g'.
     split_lines rb (seed 42) (splitlines (universal_newlines s))
       = Inr (n, train_lines, test_lines, g') \<and>
     n = length (splitlines (universal_newlines s)) \<and>
     fst (cell5 seed rb w) = None \<and>
     fs (snd (cell5 seed rb w)) train_file = Some (File (join_nl train_lines @ [LF])) \<and>
     fs (snd (cell5 seed rb w)) test_file = Some (File (join_nl test_lines @ [LF])) \<and>
     join_nl train_lines @ [LF]
       = (if train_lines = [] then [LF] else concat (map (\<lambda>x. x @ [LF]) train_lines)) \<and>
     join_nl test_lines @ [LF]
       = (if test_lines = [] then [LF] else concat (map (\<lambda>x. x @ [LF]) test_lines)) \<and>
     (s = [] \<longrightarrow> train_lines = [] \<and> test_lines = []) \<and>
     (n < 2 \<longrightarrow> train_lines = [] \<and> test_lines = splitlines (universal_newlines s))"
proof -
  let ?lines = "splitlines (universal_newlines s)"
  from shuffle_total [OF assms(1)] obtain ys g' where
    sh: "shuffle rb (seed 42) ?lines = Inr (ys, g')" and m: "mset ys = mset ?lines" by blast
  from m have l: "length ys = length ?lines" by (rule mset_eq_length)
  let ?k = "n_train_of (length ys)"
  have sp: "split_lines rb (seed 42) ?lines = Inr (length ys, take ?k ys, drop ?k ys, g')"
    using sh by (rule split_lines_shuffle)
  from cell5_files [where seed = seed, OF assms(2-4) sh] have c:
    "fst (cell5 seed rb w) = None"
    "fs (snd (cell5 seed rb w)) train_file = Some (File (join_nl (take ?k ys) @ [LF]))"
    "fs (snd (cell5 seed rb w)) test_file = Some (File (join_nl (drop ?k ys) @ [LF]))"
    by (simp_all add: with_splits_files)
  have j: "join_nl xs @ [LF] = (if xs = [] then [LF] else concat (map (\<lambda>x. x @ [LF]) xs))"
    for xs :: "string list"
    by (simp add: join_nl_lines)
  have e: "s = [] \<longrightarrow> take ?k ys = [] \<and> drop ?k ys = []"
  proof
    assume "s = []"
    then have "?lines = []" by (simp add: splitlines_def)
    with m show "take ?k ys = [] \<and> drop ?k ys = []" by simp
  qed
  have t: "length ys < 2 \<longrightarrow> take ?k ys = [] \<and> drop ?k ys = ?lines"
  proof
    assume a: "length ys < 2"
    with m l have "ys = ?lines" by (intro mset_short) simp_all
    with a show "take ?k ys = [] \<and> drop ?k ys = ?lines" by (simp add: n_train_of_small)
  qed
  from sp l c j [of "take ?k ys"] j [of "drop ?k ys"] e t show ?thesis by blast
qed

theorem small_inputs_witness:
  "randbelow_ok lcg_randbelow \<and>
   path_exists (fs empty_input_world) raw_file \<and>
   fs empty_input_world raw_file = Some (File []) \<and>
   splitter_ready (fs empty_input_world) \<and>
   fst (cell5 lcg_seed lcg_randbelow empty_input_world) = None \<and>
   fs (snd (cell5 lcg_seed lcg_randbelow empty_input_world)) train_file = Some (File [LF]) \<and>
   fs (snd (cell5 lcg_seed lcg_randbelow empty_input_world)) test_file = Some (File [LF]) \<and>
   path_exists (fs one_line_world) raw_file \<and>
   fs one_line_world raw_file = Some (File (''r1'' @ [LF])) \<and>
   splitter_ready (fs one_line_world) \<and>
   fst (cell5 lcg_seed lcg_randbelow one_line_world) = None \<and>
   fs (snd (cell5 lcg_seed lcg_randbelow one_line_world)) train_file = Some (File [LF]) \<and>
   fs (snd (cell5 lcg_seed lcg_randbelow one_line_world)) test_file
     = Some (File (''r1'' @ [LF]))"
proof -
  from small_inputs [where seed = lcg_seed, OF randbelow_ok_lcg empty_input_world_ready]
  obtain train_lines test_lines where
    "fst (cell5 lcg_seed lcg_randbelow empty_input_world) = None"
    "fs (snd (cell5 lcg_seed lcg_randbelow empty_input_world)) train_file
       = Some (File (join_nl train_lines @ [LF]))"
    "fs (snd (cell5 lcg_seed lcg_randbelow empty_input_world)) test_file
       = Some (File (join_nl test_lines @ [LF]))"
    "train_lines = []" "test_lines = []"
    by blast
  then have a:
    "fst (cell5 lcg_seed lcg_randbelow empty_input_world) = None"
    "fs (snd (cell5 lcg_seed lcg_randbelow empty_input_world)) train_file = Some (File [LF])"
    "fs (snd (cell5 lcg_seed lcg_randbelow empty_input_world)) test_file = Some (File [LF])"
    by simp_all
  from small_inputs [where seed = lcg_seed, OF randbelow_ok_lcg one_line_world_ready]
  obtain n train_lines test_lines where
    "n = length (splitlines (universal_newlines (''r1'' @ [LF])))"
    "fst (cell5 lcg_seed lcg_randbelow one_line_world) = None"
    "fs (snd (cell5 lcg_seed lcg_randbelow one_line_world)) train_file
       = Some (File (join_nl train_lines @ [LF]))"
    "fs (snd (cell5 lcg_seed lcg_randbelow one_line_world)) test_file
       = Some (File (join_nl test_lines @ [LF]))"
    "n < 2 \<longrightarrow> train_lines = [] \<and> test_lines = splitlines (universal_newlines (''r1'' @ [LF]))"
    by blast
  then have b:
    "fst (cell5 lcg_seed lcg_randbelow one_line_world) = None"
    "fs (snd (cell5 lcg_seed lcg_randbelow one_line_world)) train_file = Some (File [LF])"
    "fs (snd (cell5 lcg_seed lcg_randbelow one_line_world)) test_file
       = Some (File (''r1'' @ [LF]))"
    unfolding splitlines_one_line by simp_all
  from a b randbelow_ok_lcg empty_input_world_ready one_line_world_ready show ?thesis
    by (simp only: simp_thms)
qed

text \<open>
  Claim C8. If the configuration file cannot be read, or its content is not JSON, or the
  JSON value is not a mapping, cell 7 raises (the error of \<^verbatim>\<open>open\<close>,
  \<^verbatim>\<open>JSONDecodeError\<close>, or the \<^verbatim>\<open>TypeError\<close> of the item assignment) before it opens the file
  for writing: the world, and the file in it, are unchanged.
\<close>

theorem malformed_config_is_fatal:
  assumes "\<forall>text kvs. open_read (fs w) config_file = Inr text \<longrightarrow>
     json_loads text \<noteq> Some (JObj kvs)"
  shows "cell7 json_loads json_dumps w =
     (Some (case open_read (fs w) config_file of
              Inl e \<Rightarrow> e
            | Inr text \<Rightarrow> if json_loads text = None then JSONDecodeError else TypeError),
      w)"
proof (cases "open_read (fs w) config_file")
  case (Inl e)
  then show ?thesis by (simp add: cell7_def)
next
  case (Inr t)
  show ?thesis
  proof (cases "json_loads t")
    case None
    with Inr show ?thesis by (simp add: cell7_def)
  next
    case (Some j)
    with assms Inr have "\<forall>kvs. j \<noteq> JObj kvs" by simp
    then have "py_setitem j finai_key finai_entry = Inl TypeError" by (cases j) simp_all
    with Inr Some show ?thesis by (simp add: cell7_def)
  qed
qed

theorem malformed_config_is_fatal_witness:
  "open_read (fs list_world) config_file = Inr ''[]'' \<and>
   sample_loads ''[]'' = Some (JArr []) \<and>
   cell7 sample_loads sample_dumps list_world = (Some TypeError, list_world)"
proof -
  have l: "sample_loads ''[]'' = Some (JArr [])"
    by (simp add: sample_loads_def m1_text_def merged_text_def quoted_def)
  then have h: "\<forall>text kvs. open_read (fs list_world) config_file = Inr text \<longrightarrow>
      sample_loads text \<noteq> Some (JObj kvs)"
    by (simp add: list_config_read)
  from malformed_config_is_fatal [where json_loads = sample_loads and json_dumps = sample_dumps,
      OF h] l
  show ?thesis by (simp add: list_config_read)
qed

text \<open>
  Claim C9. The merge is idempotent: merging the entry into the merged mapping gives the
  merged mapping again.
\<close>

theorem merge_is_idempotent:
  "py_setitem (JObj kvs) finai_key finai_entry = Inr (JObj (config_merge kvs)) \<and>
   py_setitem (JObj (config_merge kvs)) finai_key finai_entry = Inr (JObj (config_merge kvs)) \<and>
   config_merge (config_merge kvs) = config_merge kvs"
  by (simp add: config_merge_def dict_setitem_idem)

text \<open>
  Claim C10, as stated, for every non-empty input: the lines of the train file followed by
  the lines of the test file are the shuffle of the input lines. With one input line the
  train partition is empty and its file is a single newline, which reads back as one empty
  line: the two files read \<open>['', 'r1']\<close> where the shuffle is \<open>['r1']\<close>.
\<close>

theorem one_line_files_read_back:
  "fs one_line_world raw_file = Some (File (''r1'' @ [LF])) \<and>
   shuffle lcg_randbelow (lcg_seed 42) (splitlines (universal_newlines (''r1'' @ [LF])))
     = Inr ([''r1''], 42) \<and>
   fst (cell5 lcg_seed lcg_randbelow one_line_world) = None \<and>
   open_read (fs (snd (cell5 lcg_seed lcg_randbelow one_line_world))) train_file = Inr [LF] \<and>
   open_read (fs (snd (cell5 lcg_seed lcg_randbelow one_line_world))) test_file
     = Inr (''r1'' @ [LF]) \<and>
   splitlines [LF] @ splitlines (''r1'' @ [LF]) = [[], ''r1''] \<and>
   [[], ''r1''] \<noteq> [''r1'']"
proof -
  have "open_read (with_splits (fs one_line_world) [LF] (''r1'' @ [LF])) train_file = Inr [LF]"
    "open_read (with_splits (fs one_line_world) [LF] (''r1'' @ [LF])) test_file
       = Inr (''r1'' @ [LF])"
    by (simp_all add: open_read_def with_splits_parents with_splits_files)
  moreover have "splitlines [LF] @ splitlines (''r1'' @ [LF]) = [[], ''r1'']"
    by (simp add: splitlines_def is_linebreak_def)
  ultimately show ?thesis
    using one_line_world_ready(2) shuffle_one_line cell5_one_line by simp
qed

text \<open>
  Claim C10, amended. For every input, \<open>train_lines\<close> followed by \<open>test_lines\<close> is the
  shuffle, seeded with 42, of the input lines, and the two files are written from these
  lists; for every input of at least two lines, the lines read back from the train file
  followed by those read back from the test file are exactly that shuffle, in its order.
\<close>

theorem output_order_is_shuffle:
  assumes "randbelow_ok rb" and "path_exists (fs w) raw_file"
    and "fs w raw_file = Some (File s)" and "splitter_ready (fs w)"
  shows "\<exists>ys g' train_lines test_lines.
     shuffle rb (seed 42) (splitlines (universal_newlines s)) = Inr (ys, g') \<and>
     split_lines rb (seed 42) (splitlines (universal_newlines s))
       = Inr (length ys, train_lines, test_lines, g') \<and>
     train_lines @ test_lines = ys \<and>
     fst (cell5 seed rb w) = None \<and>
     fs (snd (cell5 seed rb w)) train_file = Some (File (join_nl train_lines @ [LF])) \<and>
     fs (snd (cell5 seed rb w)) test_file = Some (File (join_nl test_lines @ [LF])) \<and>
     (2 \<le> length (splitlines (universal_newlines s)) \<longrightarrow>
        open_read (fs (snd (cell5 seed rb w))) train_file = Inr (join_nl train_lines @ [LF]) \<and>
        open_read (fs (snd (cell5 seed rb w))) test_file = Inr (join_nl test_lines @ [LF]) \<and>
        splitlines (join_nl train_lines @ [LF]) @ splitlines (join_nl test_lines @ [LF]) = ys)"
proof -
  let ?lines = "splitlines (universal_newlines s)"
  from shuffle_total [OF assms(1)] obtain ys g' where
    sh: "shuffle rb (seed 42) ?lines = Inr (ys, g')" and m: "mset ys = mset ?lines" by blast
  from m have l: "length ys = length ?lines" by (rule mset_eq_length)
  let ?k = "n_train_of (length ys)"
  let ?a = "join_nl (take ?k ys) @ [LF]"
  let ?b = "join_nl (drop ?k ys) @ [LF]"
  let ?f = "fs (snd (cell5 seed rb w))"
  have sp: "split_lines rb (seed 42) ?lines = Inr (length ys, take ?k ys, drop ?k ys, g')"
    using sh by (rule split_lines_shuffle)
  have td: "take ?k ys @ drop ?k ys = ys" by (rule append_take_drop_id)
  from cell5_files [where seed = seed, OF assms(2-4) sh] have
    n: "fst (cell5 seed rb w) = None" and f: "?f = with_splits (fs w) ?a ?b" .
  from f have fa: "?f train_file = Some (File ?a)" and fb: "?f test_file = Some (File ?b)"
    by (simp_all add: with_splits_files)
  from f have pa: "check_parent ?f train_file = None" and pb: "check_parent ?f test_file = None"
    by (simp_all add: with_splits_parents)
  from m have "set ys = set ?lines" by (rule mset_eq_setD)
  with splitlines_clean [of "universal_newlines s"] have
    cl: "\<forall>x\<in>set ys. \<forall>c\<in>set x. \<not> is_linebreak c" by simp
  have ca: "\<forall>x\<in>set (take ?k ys). \<forall>c\<in>set x. \<not> is_linebreak c"
    using cl by (meson in_set_takeD)
  have cb: "\<forall>x\<in>set (drop ?k ys). \<forall>c\<in>set x. \<not> is_linebreak c"
    using cl by (meson in_set_dropD)
  have r: "2 \<le> length ?lines \<longrightarrow>
      open_read ?f train_file = Inr ?a \<and> open_read ?f test_file = Inr ?b \<and>
      splitlines ?a @ splitlines ?b = ys"
  proof
    assume "2 \<le> length ?lines"
    with l have two: "2 \<le> length ys" by simp
    then have "1 \<le> ?k" by (rule n_train_of_pos)
    with two have na: "take ?k ys \<noteq> []" by auto
    from two have "?k < length ys" by (intro n_train_of_less) simp
    then have nb: "drop ?k ys \<noteq> []" by simp
    from read_back [OF fa pa na ca] read_back [OF fb pb nb cb] td
    show "open_read ?f train_file = Inr ?a \<and> open_read ?f test_file = Inr ?b \<and>
      splitlines ?a @ splitlines ?b = ys" by simp
  qed
  from sh sp td n fa fb r show ?thesis by blast
qed

theorem output_order_is_shuffle_witness:
  "randbelow_ok lcg_randbelow \<and> path_exists (fs sample_world) raw_file \<and>
   fs sample_world raw_file
     = Some (File (join_nl [''r1'', ''r2'', ''r3'', ''r4'', ''r5''] @ [LF])) \<and>
   splitter_ready (fs sample_world) \<and>
   shuffle lcg_randbelow (lcg_seed 42) [''r1'', ''r2'', ''r3'', ''r4'', ''r5'']
     = Inr ([''r2'', ''r4'', ''r5'', ''r1'', ''r3''], 1668674806) \<and>
   fst (cell5 lcg_seed lcg_randbelow sample_world) = None \<and>
   open_read (fs (snd (cell5 lcg_seed lcg_randbelow sample_world))) train_file
     = Inr (join_nl [''r2'', ''r4'', ''r5'', ''r1''] @ [LF]) \<and>
   open_read (fs (snd (cell5 lcg_seed lcg_randbelow sample_world))) test_file
     = Inr (join_nl [''r3''] @ [LF]) \<and>
   splitlines (join_nl [''r2'', ''r4'', ''r5'', ''r1''] @ [LF])
       @ splitlines (join_nl [''r3''] @ [LF])
     = [''r2'', ''r4'', ''r5'', ''r1'', ''r3'']"
proof -
  let ?s = "join_nl [''r1'', ''r2'', ''r3'', ''r4'', ''r5''] @ [LF]"
  have two: "2 \<le> length (splitlines (universal_newlines ?s))"
    unfolding splitlines_sample by simp
  from output_order_is_shuffle [where seed = lcg_seed, OF randbelow_ok_lcg sample_world_ready]
  obtain ys g' train_lines test_lines where
    sh: "shuffle lcg_randbelow (lcg_seed 42) (splitlines (universal_newlines ?s)) = Inr (ys, g')"
    and sp: "split_lines lcg_randbelow (lcg_seed 42) (splitlines (universal_newlines ?s))
       = Inr (length ys, train_lines, test_lines, g')"
    and n: "fst (cell5 lcg_seed lcg_randbelow sample_world) = None"
    and r: "2 \<le> length (splitlines (universal_newlines ?s)) \<longrightarrow>
        open_read (fs (snd (cell5 lcg_seed lcg_randbelow sample_world))) train_file
          = Inr (join_nl train_lines @ [LF]) \<and>
        open_read (fs (snd (cell5 lcg_seed lcg_randbelow sample_world))) test_file
          = Inr (join_nl test_lines @ [LF]) \<and>
        splitlines (join_nl train_lines @ [LF]) @ splitlines (join_nl test_lines @ [LF]) = ys"
    by blast
  from sh have ys: "ys = [''r2'', ''r4'', ''r5'', ''r1'', ''r3'']"
    unfolding splitlines_sample shuffle_sample by simp
  from sp have "train_lines = [''r2'', ''r4'', ''r5'', ''r1'']" "test_lines = [''r3'']"
    unfolding splitlines_sample split_lines_sample by simp_all
  with r two ys have
    "open_read (fs (snd (cell5 lcg_seed lcg_randbelow sample_world))) train_file
       = Inr (join_nl [''r2'', ''r4'', ''r5'', ''r1''] @ [LF])"
    "open_read (fs (snd (cell5 lcg_seed lcg_randbelow sample_world))) test_file
       = Inr (join_nl [''r3''] @ [LF])"
    "splitlines (join_nl [''r2'', ''r4'', ''r5'', ''r1''] @ [LF])
       @ splitlines (join_nl [''r3''] @ [LF])
     = [''r2'', ''r4'', ''r5'', ''r1'', ''r3'']"
    by blast+
  with n randbelow_ok_lcg sample_world_ready shuffle_sample show ?thesis
    by (simp only: simp_thms)
qed

end
